theory Spec2Isabelle
  imports Main
begin

section \<open>Data model of chess.py\<close>

text \<open>
  The six subclasses of \<open>Piece\<close> become one record with a \<open>kind\<close> tag; the colour
  strings 'w' and 'b' become a two-valued datatype. \<open>position\<close> is the attribute the
  object carries (row first, column second, as in the source, where the names x and y
  stand for row and column). \<open>can_be_captured_en_passant\<close> exists on pawns only; the
  source reads and writes it only behind an \<open>isinstance(_, Pawn)\<close> test.
\<close>

datatype kind = Pawn | Rook | Knight | Bishop | Queen | King

datatype color = White | Black

record piece =
  kind :: kind
  color :: color
  position :: "int \<times> int"
  has_moved :: bool
  can_be_captured_en_passant :: bool

type_synonym pos = "int \<times> int"

text \<open>
  \<open>ChessBoard.board\<close> is a list of eight rows of eight cells. It is built so by
  \<open>__init__\<close> and afterwards touched by item assignment only, which keeps the shape.
  Piece objects are values here: every write to an attribute of an object is written
  to the cell that holds the object.
\<close>

type_synonym grid = "piece option list list"

record chessboard =
  board :: grid
  last_state :: "grid option"

datatype error =
  IndexError | ValueError | UnboundLocalError | AttributeError | RecursionError | SystemExit

datatype game_status = NotOver | Checkmate | Stalemate

definition bind_err :: "error + 'a \<Rightarrow> ('a \<Rightarrow> error + 'b) \<Rightarrow> error + 'b" where
  "bind_err m f = (case m of Inl e \<Rightarrow> Inl e | Inr x \<Rightarrow> f x)"

subsection \<open>Python list indexing\<close>

text \<open>An index below zero counts from the end; outside both ranges it is an IndexError.\<close>

definition py_index :: "nat \<Rightarrow> int \<Rightarrow> nat option" where
  "py_index n i =
     (if 0 \<le> i \<and> i < int n then Some (nat i)
      else if - int n \<le> i \<and> i < 0 then Some (nat (i + int n))
      else None)"

definition grid_get :: "grid \<Rightarrow> int \<Rightarrow> int \<Rightarrow> error + piece option" where
  "grid_get b x y =
     (case py_index (length b) x of
        None \<Rightarrow> Inl IndexError
      | Some i \<Rightarrow>
          (case py_index (length (b ! i)) y of
             None \<Rightarrow> Inl IndexError
           | Some j \<Rightarrow> Inr (b ! i ! j)))"

definition grid_set :: "grid \<Rightarrow> int \<Rightarrow> int \<Rightarrow> piece option \<Rightarrow> error + grid" where
  "grid_set b x y v =
     (case py_index (length b) x of
        None \<Rightarrow> Inl IndexError
      | Some i \<Rightarrow>
          (case py_index (length (b ! i)) y of
             None \<Rightarrow> Inl IndexError
           | Some j \<Rightarrow> Inr (b[i := (b ! i)[j := v]])))"

text \<open>\<open>range(a, b, step)\<close> for the two steps the source uses, 1 and -1.\<close>

definition py_range :: "int \<Rightarrow> int \<Rightarrow> int \<Rightarrow> int list" where
  "py_range a b step = (if 0 < step then [a..b - 1] else rev [b + 1..a])"

definition all_squares :: "pos list" where
  "all_squares = concat (map (\<lambda>r. map (\<lambda>c. (r, c)) [0..7]) [0..7])"

subsection \<open>ChessBoard.get_piece\<close>

definition get_piece :: "grid \<Rightarrow> pos \<Rightarrow> piece option" where
  "get_piece b p =
     (case p of (x, y) \<Rightarrow>
        if 0 \<le> x \<and> x < 8 \<and> 0 \<le> y \<and> y < 8 then b ! nat x ! nat y else None)"

text \<open>A write to the cell of a square known to be on the board.\<close>

definition put :: "grid \<Rightarrow> pos \<Rightarrow> piece option \<Rightarrow> grid" where
  "put b p v = (case p of (x, y) \<Rightarrow> b[nat x := (b ! nat x)[nat y := v]])"

section \<open>The legality predicates\<close>

text \<open>The early return of the clearance loops: the first occupied square answers False.\<close>

fun path_clear :: "grid \<Rightarrow> pos list \<Rightarrow> bool" where
  "path_clear b [] = True"
| "path_clear b (p # ps) = (case get_piece b p of None \<Rightarrow> path_clear b ps | Some q \<Rightarrow> False)"

definition pawn_valid :: "piece \<Rightarrow> pos \<Rightarrow> grid \<Rightarrow> bool" where
  "pawn_valid self end_position b =
     (case position self of (start_x, start_y) \<Rightarrow>
      case end_position of (end_x, end_y) \<Rightarrow>
        let direction = (if color self = White then - 1 else 1);
            start_row = (if color self = White then 6 else 1)
        in
        if end_y = start_y \<and> end_x = start_x + direction \<and> get_piece b end_position = None
        then True
        else if start_x = start_row \<and> end_y = start_y \<and> end_x = start_x + 2 * direction \<and>
                get_piece b (start_x + direction, start_y) = None \<and>
                get_piece b end_position = None
        then True
        else if \<bar>end_y - start_y\<bar> = 1 \<and> end_x = start_x + direction
        then
          (case get_piece b end_position of
             Some target \<Rightarrow>
               if color target \<noteq> color self then True
               else
                 (case get_piece b (start_x, end_y) of
                    Some adjacent_pawn \<Rightarrow>
                      kind adjacent_pawn = Pawn \<and> color adjacent_pawn \<noteq> color self \<and>
                      can_be_captured_en_passant adjacent_pawn
                  | None \<Rightarrow> False)
           | None \<Rightarrow>
               (case get_piece b (start_x, end_y) of
                  Some adjacent_pawn \<Rightarrow>
                    kind adjacent_pawn = Pawn \<and> color adjacent_pawn \<noteq> color self \<and>
                    can_be_captured_en_passant adjacent_pawn
                | None \<Rightarrow> False))
        else False)"

definition rook_valid :: "pos \<Rightarrow> pos \<Rightarrow> grid \<Rightarrow> bool" where
  "rook_valid start end_position b =
     (case start of (start_x, start_y) \<Rightarrow>
      case end_position of (end_x, end_y) \<Rightarrow>
        if start_x \<noteq> end_x \<and> start_y \<noteq> end_y then False
        else if start_x = end_x
        then
          (let step = (if end_y > start_y then 1 else - 1)
           in path_clear b (map (\<lambda>y. (start_x, y)) (py_range (start_y + step) end_y step)))
        else
          (let step = (if end_x > start_x then 1 else - 1)
           in path_clear b (map (\<lambda>x. (x, start_y)) (py_range (start_x + step) end_x step))))"

definition knight_valid :: "pos \<Rightarrow> pos \<Rightarrow> bool" where
  "knight_valid start end_position =
     (case start of (start_x, start_y) \<Rightarrow>
      case end_position of (end_x, end_y) \<Rightarrow>
        let dx = \<bar>end_x - start_x\<bar>; dy = \<bar>end_y - start_y\<bar>
        in (dx, dy) = (2, 1) \<or> (dx, dy) = (1, 2))"

definition bishop_valid :: "pos \<Rightarrow> pos \<Rightarrow> grid \<Rightarrow> bool" where
  "bishop_valid start end_position b =
     (case start of (start_x, start_y) \<Rightarrow>
      case end_position of (end_x, end_y) \<Rightarrow>
        let dx = end_x - start_x; dy = end_y - start_y
        in
        if \<bar>dx\<bar> \<noteq> \<bar>dy\<bar> then False
        else
          (let step_x = (if dx > 0 then 1 else - 1);
               step_y = (if dy > 0 then 1 else - 1)
           in path_clear b
                (map (\<lambda>i. (start_x + i * step_x, start_y + i * step_y)) (py_range 1 \<bar>dx\<bar> 1))))"

definition queen_valid :: "pos \<Rightarrow> pos \<Rightarrow> grid \<Rightarrow> bool" where
  "queen_valid start end_position b =
     (rook_valid start end_position b \<or> bishop_valid start end_position b)"

text \<open>
  The king's castling probes. For each of the three squares of the king's path that is
  not the rook's corner, the king is lifted from its own square, put on the probed
  square, \<open>is_king_in_check\<close> is asked (\<open>chk\<close>), and the two cells are written back.
  The four writes are plain item assignments \<open>board.board[start_x][...]\<close>.
\<close>

fun castle_probe ::
  "(grid \<Rightarrow> color \<Rightarrow> error + (bool \<times> grid)) \<Rightarrow> piece \<Rightarrow> int \<Rightarrow> grid \<Rightarrow> int list \<Rightarrow>
     error + (bool \<times> grid)" where
  "castle_probe chk self rook_y b [] = Inr (True, b)"
| "castle_probe chk self rook_y b (y # ys) =
     (if y \<noteq> rook_y then
        bind_err (grid_set b (fst (position self)) (snd (position self)) None) (\<lambda>b1.
        bind_err (grid_set b1 (fst (position self)) y (Some self)) (\<lambda>b2.
        bind_err (chk b2 (color self)) (\<lambda>(in_check, b3).
        bind_err (grid_set b3 (fst (position self)) y None) (\<lambda>b4.
        bind_err (grid_set b4 (fst (position self)) (snd (position self)) (Some self)) (\<lambda>b5.
        if in_check then Inr (False, b5) else castle_probe chk self rook_y b5 ys)))))
      else castle_probe chk self rook_y b ys)"

definition king_valid ::
  "(grid \<Rightarrow> color \<Rightarrow> error + (bool \<times> grid)) \<Rightarrow> piece \<Rightarrow> pos \<Rightarrow> grid \<Rightarrow>
     error + (bool \<times> grid)" where
  "king_valid chk self end_position b =
     (case position self of (start_x, start_y) \<Rightarrow>
      case end_position of (end_x, end_y) \<Rightarrow>
        if \<bar>end_x - start_x\<bar> \<le> 1 \<and> \<bar>end_y - start_y\<bar> \<le> 1
        then
          (case get_piece b end_position of
             None \<Rightarrow> Inr (True, b)
           | Some target \<Rightarrow> Inr (color target \<noteq> color self, b))
        else if \<not> has_moved self \<and> start_x = end_x \<and> \<bar>end_y - start_y\<bar> = 2
        then
          (let direction = (if end_y > start_y then 1 else - 1);
               rook_y = (if direction = 1 then 7 else 0)
           in
           case get_piece b (start_x, rook_y) of
             None \<Rightarrow> Inr (False, b)
           | Some rook \<Rightarrow>
               if kind rook = Rook \<and> \<not> has_moved rook
               then
                 (if \<not> path_clear b
                         (map (\<lambda>y. (start_x, y)) (py_range (start_y + direction) rook_y direction))
                  then Inr (False, b)
                  else castle_probe chk self rook_y b
                         (py_range start_y (start_y + 3 * direction) direction))
               else Inr (False, b))
        else Inr (False, b))"

text \<open>Dynamic dispatch of \<open>piece.is_valid_move(end_position, board)\<close>.\<close>

definition is_valid_move_with ::
  "(grid \<Rightarrow> color \<Rightarrow> error + (bool \<times> grid)) \<Rightarrow> piece \<Rightarrow> pos \<Rightarrow> grid \<Rightarrow>
     error + (bool \<times> grid)" where
  "is_valid_move_with chk self end_position b =
     (case kind self of
        Pawn \<Rightarrow> Inr (pawn_valid self end_position b, b)
      | Rook \<Rightarrow> Inr (rook_valid (position self) end_position b, b)
      | Knight \<Rightarrow> Inr (knight_valid (position self) end_position, b)
      | Bishop \<Rightarrow> Inr (bishop_valid (position self) end_position b, b)
      | Queen \<Rightarrow> Inr (queen_valid (position self) end_position b, b)
      | King \<Rightarrow> king_valid chk self end_position b)"

section \<open>ChessBoard.is_king_in_check\<close>

fun find_king :: "grid \<Rightarrow> color \<Rightarrow> pos list \<Rightarrow> pos option" where
  "find_king b c [] = None"
| "find_king b c (p # ps) =
     (case b ! nat (fst p) ! nat (snd p) of
        None \<Rightarrow> find_king b c ps
      | Some q \<Rightarrow> if kind q = King \<and> color q = c then Some p else find_king b c ps)"

fun attack_scan ::
  "(piece \<Rightarrow> pos \<Rightarrow> grid \<Rightarrow> error + (bool \<times> grid)) \<Rightarrow> grid \<Rightarrow> pos \<Rightarrow> color \<Rightarrow> pos list \<Rightarrow>
     error + (bool \<times> grid)" where
  "attack_scan vm b king_position opponent_color [] = Inr (False, b)"
| "attack_scan vm b king_position opponent_color (p # ps) =
     (case b ! nat (fst p) ! nat (snd p) of
        None \<Rightarrow> attack_scan vm b king_position opponent_color ps
      | Some q \<Rightarrow>
          if color q = opponent_color
          then bind_err (vm q king_position b) (\<lambda>(ok, b').
                 if ok then Inr (True, b')
                 else attack_scan vm b' king_position opponent_color ps)
          else attack_scan vm b king_position opponent_color ps)"

definition is_king_in_check_with ::
  "(piece \<Rightarrow> pos \<Rightarrow> grid \<Rightarrow> error + (bool \<times> grid)) \<Rightarrow> grid \<Rightarrow> color \<Rightarrow>
     error + (bool \<times> grid)" where
  "is_king_in_check_with vm b c =
     (let opponent_color = (if c = White then Black else White)
      in case find_king b c all_squares of
           None \<Rightarrow> Inl ValueError
         | Some king_position \<Rightarrow> attack_scan vm b king_position opponent_color all_squares)"

text \<open>
  \<open>King.is_valid_move\<close> calls \<open>is_king_in_check\<close>, which calls \<open>is_valid_move\<close> of
  every opposing piece, kings among them. The first argument is the depth of nested
  calls of \<open>is_king_in_check\<close> still allowed; beyond it the interpreter raises
  RecursionError.
\<close>

primrec is_king_in_check :: "nat \<Rightarrow> grid \<Rightarrow> color \<Rightarrow> error + (bool \<times> grid)" where
  "is_king_in_check 0 b c = Inl RecursionError"
| "is_king_in_check (Suc n) b c =
     is_king_in_check_with (is_valid_move_with (is_king_in_check n)) b c"

definition is_valid_move :: "nat \<Rightarrow> piece \<Rightarrow> pos \<Rightarrow> grid \<Rightarrow> error + (bool \<times> grid)" where
  "is_valid_move n = is_valid_move_with (is_king_in_check n)"

section \<open>ChessBoard: set-up, snapshot and undo\<close>

definition new_piece :: "kind \<Rightarrow> color \<Rightarrow> pos \<Rightarrow> piece" where
  "new_piece k c p =
     \<lparr>kind = k, color = c, position = p, has_moved = False, can_be_captured_en_passant = False\<rparr>"

definition back_rank :: "color \<Rightarrow> int \<Rightarrow> piece option list" where
  "back_rank c r =
     map (\<lambda>(k, i). Some (new_piece k c (r, i)))
       [(Rook, 0), (Knight, 1), (Bishop, 2), (Queen, 3), (King, 4), (Bishop, 5), (Knight, 6),
        (Rook, 7)]"

definition pawn_rank :: "color \<Rightarrow> int \<Rightarrow> piece option list" where
  "pawn_rank c r = map (\<lambda>i. Some (new_piece Pawn c (r, i))) [0..7]"

definition empty_rank :: "piece option list" where
  "empty_rank = replicate 8 None"

definition setup_board :: grid where
  "setup_board =
     [back_rank Black 0, pawn_rank Black 1, empty_rank, empty_rank, empty_rank, empty_rank,
      pawn_rank White 6, back_rank White 7]"

definition init_board :: chessboard where
  "init_board = \<lparr>board = setup_board, last_state = None\<rparr>"

text \<open>\<open>copy.deepcopy\<close> of a grid of values is the grid.\<close>

definition save_state :: "chessboard \<Rightarrow> chessboard" where
  "save_state s = s\<lparr>last_state := Some (board s)\<rparr>"

text \<open>\<open>if self.last_state:\<close> is the truth value of a list: false for None and for [].\<close>

definition undo_move :: "chessboard \<Rightarrow> chessboard" where
  "undo_move s =
     (case last_state s of
        None \<Rightarrow> s
      | Some b \<Rightarrow> if b \<noteq> [] then s\<lparr>board := b, last_state := None\<rparr> else s)"

section \<open>ChessBoard.move_piece\<close>

definition clear_en_passant :: "color \<Rightarrow> grid \<Rightarrow> grid" where
  "clear_en_passant c b =
     map (map (\<lambda>cell.
        case cell of
          None \<Rightarrow> None
        | Some p \<Rightarrow>
            if kind p = Pawn \<and> color p = c
            then Some (p\<lparr>can_be_captured_en_passant := False\<rparr>) else Some p)) b"

text \<open>
  \<open>piece.has_moved = True\<close> is a write to the moved object. The grid shows it on the
  end square, where the object was put, unless that cell was emptied again by
  \<open>self.board[start_x][start_y] = None\<close> (start and end being one cell).
\<close>

definition mark_moved :: "grid \<Rightarrow> int \<Rightarrow> int \<Rightarrow> piece \<Rightarrow> grid" where
  "mark_moved b end_x end_y moved =
     (case grid_get b end_x end_y of
        Inr (Some q) \<Rightarrow>
          if q = moved
          then (case grid_set b end_x end_y (Some (moved\<lparr>has_moved := True\<rparr>)) of
                  Inr b' \<Rightarrow> b' | Inl e \<Rightarrow> b)
          else b
      | _ \<Rightarrow> b)"

text \<open>
  The roll-back of a move that leaves the mover's king in check (lines 333 to 348).
  \<open>direction\<close>, \<open>rook_y\<close> and \<open>rook\<close> are bound only in the castling branch, which a
  pawn never enters: the pawn's test reads \<open>direction\<close> unbound.
\<close>

definition roll_back ::
  "grid \<Rightarrow> piece \<Rightarrow> pos \<Rightarrow> pos \<Rightarrow> piece option \<Rightarrow> piece option \<Rightarrow> error + grid" where
  "roll_back b piece start_pos end_pos original_piece rook =
     (case start_pos of (start_x, start_y) \<Rightarrow>
      case end_pos of (end_x, end_y) \<Rightarrow>
        bind_err (grid_set b start_x start_y (Some (piece\<lparr>position := start_pos\<rparr>))) (\<lambda>b1.
        bind_err (grid_set b1 end_x end_y original_piece) (\<lambda>b2.
        if kind piece = Pawn \<and> \<bar>end_y - start_y\<bar> = 1 then Inl UnboundLocalError
        else if kind piece = King \<and> \<bar>end_y - start_y\<bar> = 2
        then
          (let direction = (if end_y > start_y then 1 else - 1);
               rook_y = (if direction = 1 then 7 else 0)
           in
           bind_err (grid_set b2 start_x (start_y + direction) None) (\<lambda>b3.
           case rook of
             None \<Rightarrow> Inl AttributeError
           | Some r \<Rightarrow> grid_set b3 start_x rook_y (Some (r\<lparr>position := (start_x, rook_y)\<rparr>))))
        else Inr b2)))"

text \<open>The relocation of the castling rook (lines 312 to 320); it also yields \<open>rook\<close>.\<close>

definition castle_rook :: "grid \<Rightarrow> piece \<Rightarrow> pos \<Rightarrow> pos \<Rightarrow> error + (grid \<times> piece option)" where
  "castle_rook b piece start_pos end_pos =
     (case start_pos of (start_x, start_y) \<Rightarrow>
      case end_pos of (end_x, end_y) \<Rightarrow>
        if kind piece = King \<and> \<bar>end_y - start_y\<bar> = 2
        then
          (let direction = (if end_y > start_y then 1 else - 1);
               rook_y = (if direction = 1 then 7 else 0)
           in
           case get_piece b (start_x, rook_y) of
             None \<Rightarrow> Inr (b, None)
           | Some r \<Rightarrow>
               if kind r = Rook
               then
                 bind_err (grid_set b start_x rook_y None) (\<lambda>b1.
                 bind_err (grid_set b1 start_x (start_y + direction)
                            (Some (r\<lparr>position := (start_x, start_y + direction)\<rparr>))) (\<lambda>b2.
                 Inr (b2, Some r)))
               else Inr (b, Some r))
        else Inr (b, None))"

text \<open>
  The removal of the pawn captured en passant (lines 294 to 299): a pawn that changes
  file onto an empty square empties the square beside its start.
\<close>

definition en_passant_capture :: "grid \<Rightarrow> piece \<Rightarrow> pos \<Rightarrow> pos \<Rightarrow> error + grid" where
  "en_passant_capture b piece start_pos end_pos =
     (if kind piece = Pawn \<and> \<bar>snd end_pos - snd start_pos\<bar> = 1 \<and> get_piece b end_pos = None
      then grid_set b (fst start_pos) (snd end_pos) None
      else Inr b)"

text \<open>
  The flags (lines 301 to 309): cleared on every pawn of the mover's colour, the moved
  piece among them, then set on a pawn that moves two rows. It yields the moved object
  as it is afterwards and the grid, where the object still stands on its start square.
\<close>

definition update_flags :: "color \<Rightarrow> piece \<Rightarrow> pos \<Rightarrow> pos \<Rightarrow> grid \<Rightarrow> piece \<times> grid" where
  "update_flags c piece start_pos end_pos b =
     (let b' = clear_en_passant c b;
          piece1 = (if kind piece = Pawn
                    then piece\<lparr>can_be_captured_en_passant := False\<rparr> else piece)
      in if kind piece = Pawn \<and> \<bar>fst end_pos - fst start_pos\<bar> = 2
         then (piece1\<lparr>can_be_captured_en_passant := True\<rparr>,
               put b' start_pos (Some (piece1\<lparr>can_be_captured_en_passant := True\<rparr>)))
         else (piece1, b'))"

text \<open>The trial placement (lines 322 to 326); it also yields \<open>original_piece\<close>.\<close>

definition simulate_move ::
  "grid \<Rightarrow> piece \<Rightarrow> pos \<Rightarrow> pos \<Rightarrow> error + (piece option \<times> grid)" where
  "simulate_move b piece start_pos end_pos =
     bind_err (grid_get b (fst end_pos) (snd end_pos)) (\<lambda>original_piece.
     bind_err (grid_set b (fst end_pos) (snd end_pos) (Some (piece\<lparr>position := end_pos\<rparr>)))
       (\<lambda>b1.
     bind_err (grid_set b1 (fst start_pos) (snd start_pos) None) (\<lambda>b2.
     Inr (original_piece, b2))))"

text \<open>
  \<open>move_piece\<close> returns its boolean and the board object's new state. An exception
  ends the program (\<open>main\<close> catches none), so no state is kept for it.
  The attribute \<open>last_moved_piece\<close>, written and never read, is left out.
\<close>

definition move_piece ::
  "nat \<Rightarrow> chessboard \<Rightarrow> pos \<Rightarrow> pos \<Rightarrow> color \<Rightarrow> error + (bool \<times> chessboard)" where
  "move_piece n s start_pos end_pos c =
     (case get_piece (board s) start_pos of
        None \<Rightarrow> Inr (False, s)
      | Some piece \<Rightarrow>
          if color piece \<noteq> c then Inr (False, s)
          else
            (let s1 = save_state s
             in
             bind_err (is_valid_move n piece end_pos (board s1)) (\<lambda>(ok, b1).
             if \<not> ok then Inr (False, s1\<lparr>board := b1\<rparr>)
             else
               bind_err (en_passant_capture b1 piece start_pos end_pos) (\<lambda>b2.
               case update_flags c piece start_pos end_pos b2 of (piece2, b4) \<Rightarrow>
               bind_err (castle_rook b4 piece start_pos end_pos) (\<lambda>(b5, rook).
               bind_err (simulate_move b5 piece2 start_pos end_pos) (\<lambda>(original_piece, b7).
               bind_err (is_king_in_check n b7 c) (\<lambda>(in_check, b8).
               if in_check
               then bind_err (roll_back b8 piece2 start_pos end_pos original_piece rook)
                      (\<lambda>b9. Inr (False, s1\<lparr>board := b9\<rparr>))
               else Inr (True,
                         s1\<lparr>board := mark_moved b8 (fst end_pos) (snd end_pos)
                                        (piece2\<lparr>position := end_pos\<rparr>)\<rparr>))))))))"

section \<open>ChessBoard.is_game_over\<close>

text \<open>
  The inner two loops: every square of the board as a destination of \<open>piece\<close>, taken
  from the square \<open>start\<close>. True means a trial was found that does not leave the
  king in check. A trial ends with \<open>piece.move([row, col])\<close> (lines 409 and 415), so
  the destinations after it are tested with the position attribute set to \<open>start\<close>.
\<close>

fun try_ends ::
  "nat \<Rightarrow> color \<Rightarrow> piece \<Rightarrow> pos \<Rightarrow> grid \<Rightarrow> pos list \<Rightarrow> error + (bool \<times> grid)" where
  "try_ends n c piece start b [] = Inr (False, b)"
| "try_ends n c piece start b (end_position # rest) =
     bind_err (is_valid_move n piece end_position b) (\<lambda>(ok, b1).
     if \<not> ok then try_ends n c piece start b1 rest
     else
       (case get_piece b1 end_position of
          Some target \<Rightarrow>
            if kind target = King then try_ends n c piece start b1 rest
            else
              (let original_start_piece = get_piece b1 start;
                   original_end_piece = get_piece b1 end_position;
                   b2 = put (put b1 start None) end_position
                          (Some (piece\<lparr>position := end_position\<rparr>))
               in
               bind_err (is_king_in_check n b2 c) (\<lambda>(in_check, b3).
               let b4 = put (put b3 start
                               (map_option (\<lambda>q. q\<lparr>position := start\<rparr>) original_start_piece))
                          end_position original_end_piece
               in if \<not> in_check then Inr (True, b4)
                  else try_ends n c (piece\<lparr>position := start\<rparr>) start b4 rest))
        | None \<Rightarrow>
              (let original_start_piece = get_piece b1 start;
                   original_end_piece = get_piece b1 end_position;
                   b2 = put (put b1 start None) end_position
                          (Some (piece\<lparr>position := end_position\<rparr>))
               in
               bind_err (is_king_in_check n b2 c) (\<lambda>(in_check, b3).
               let b4 = put (put b3 start
                               (map_option (\<lambda>q. q\<lparr>position := start\<rparr>) original_start_piece))
                          end_position original_end_piece
               in if \<not> in_check then Inr (True, b4)
                  else try_ends n c (piece\<lparr>position := start\<rparr>) start b4 rest))))"

fun scan_pieces :: "nat \<Rightarrow> color \<Rightarrow> grid \<Rightarrow> pos list \<Rightarrow> error + (bool \<times> grid)" where
  "scan_pieces n c b [] = Inr (False, b)"
| "scan_pieces n c b (p # ps) =
     (case get_piece b p of
        None \<Rightarrow> scan_pieces n c b ps
      | Some piece \<Rightarrow>
          if color piece = c
          then bind_err (try_ends n c piece p b all_squares) (\<lambda>(found, b').
                 if found then Inr (True, b') else scan_pieces n c b' ps)
          else scan_pieces n c b ps)"

text \<open>Python's \<open>False\<close> is \<open>NotOver\<close>; the two strings are the other two results.\<close>

definition is_game_over :: "nat \<Rightarrow> grid \<Rightarrow> color \<Rightarrow> error + (game_status \<times> grid)" where
  "is_game_over n b c =
     bind_err (scan_pieces n c b all_squares) (\<lambda>(found, b1).
     if found then Inr (NotOver, b1)
     else bind_err (is_king_in_check n b1 c) (\<lambda>(in_check, b2).
            Inr (if in_check then Checkmate else Stalemate, b2)))"

text \<open>A line of play: the calls of \<open>move_piece\<close> in order, stopping at the first refusal.\<close>

fun play :: "nat \<Rightarrow> chessboard \<Rightarrow> (pos \<times> pos \<times> color) list \<Rightarrow> error + (bool \<times> chessboard)" where
  "play n s [] = Inr (True, s)"
| "play n s ((start_pos, end_pos, c) # ms) =
     bind_err (move_piece n s start_pos end_pos c) (\<lambda>(ok, s').
     if ok then play n s' ms else Inr (False, s'))"

section \<open>The event loop of main\<close>

text \<open>
  The variables of \<open>main\<close> that the loop reads back. \<open>promoting_pawn\<close> and
  \<open>promotion_color\<close> are set together (lines 575, 576) and cleared together (lines 562,
  563): one field holds the square and the colour. The two scores and everything that
  is drawn are written and never read back by the loop.
\<close>

record game =
  chess :: chessboard
  player_turn :: color
  selected_piece :: "pos option"
  promoting_pawn :: "(pos \<times> color) option"

datatype event = Quit | MouseButtonDown int int | OtherEvent

definition new_game :: game where
  "new_game =
     \<lparr>chess = init_board, player_turn = White, selected_piece = None, promoting_pawn = None\<rparr>"

definition other :: "color \<Rightarrow> color" where
  "other c = (if c = White then Black else White)"

text \<open>
  The four rectangles of lines 545 to 549, each \<open>CELLSIZE = 100\<close> wide and high. A
  \<open>pygame.Rect\<close> contains its left and top edge and not its right and bottom edge.
\<close>

definition promotion_choice :: "int \<Rightarrow> int \<Rightarrow> kind option" where
  "promotion_choice mouse_x mouse_y =
     (if 600 \<le> mouse_x \<and> mouse_x < 700 \<and> 400 \<le> mouse_y \<and> mouse_y < 500 then Some Queen
      else if 700 \<le> mouse_x \<and> mouse_x < 800 \<and> 400 \<le> mouse_y \<and> mouse_y < 500 then Some Rook
      else if 600 \<le> mouse_x \<and> mouse_x < 700 \<and> 500 \<le> mouse_y \<and> mouse_y < 600 then Some Knight
      else if 700 \<le> mouse_x \<and> mouse_x < 800 \<and> 500 \<le> mouse_y \<and> mouse_y < 600 then Some Bishop
      else None)"

text \<open>
  Lines 541 to 566, for a click whose square is \<open>sq\<close>: while a promotion is pending, a
  click inside one of the four rectangles writes the chosen piece, ends the promotion,
  passes the turn, and replaces \<open>row, col\<close> by the square of the promoted pawn. The
  result is the state and the \<open>row, col\<close> that line 567 goes on with.
\<close>

definition promotion_click :: "game \<Rightarrow> int \<Rightarrow> int \<Rightarrow> pos \<Rightarrow> error + (game \<times> pos)" where
  "promotion_click g mouse_x mouse_y sq =
     (case promoting_pawn g of
        None \<Rightarrow> Inr (g, sq)
      | Some ((row, col), promotion_color) \<Rightarrow>
          (case promotion_choice mouse_x mouse_y of
             None \<Rightarrow> Inr (g, sq)
           | Some k \<Rightarrow>
               bind_err (grid_set (board (chess g)) row col
                           (Some (new_piece k promotion_color (row, col)))) (\<lambda>b.
               Inr (g\<lparr>chess := (chess g)\<lparr>board := b\<rparr>, promoting_pawn := None,
                      player_turn := other (player_turn g)\<rparr>, (row, col)))))"

text \<open>
  Lines 567 to 584, for the square \<open>(row, col)\<close>: with a piece selected, a click on a
  piece of the player to move selects that one instead, any other click asks
  \<open>move_piece\<close>; a pawn that has reached row 0 or 7 opens a promotion and keeps the
  turn, every other accepted move passes the turn.
\<close>

definition select_or_move :: "nat \<Rightarrow> game \<Rightarrow> pos \<Rightarrow> error + game" where
  "select_or_move n g sq =
     (case selected_piece g of
        Some sel \<Rightarrow>
          if (case get_piece (board (chess g)) sq of
                Some q \<Rightarrow> color q = player_turn g
              | None \<Rightarrow> False)
          then Inr (g\<lparr>selected_piece := Some sq\<rparr>)
          else
            bind_err (move_piece n (chess g) sel sq (player_turn g)) (\<lambda>(ok, s').
            if ok then
              (case get_piece (board s') sq of
                 Some piece \<Rightarrow>
                   if kind piece = Pawn \<and> (fst sq = 0 \<or> fst sq = 7)
                   then Inr (g\<lparr>chess := s', selected_piece := None,
                               promoting_pawn := Some (sq, color piece)\<rparr>)
                   else Inr (g\<lparr>chess := s', selected_piece := None,
                               player_turn := other (player_turn g)\<rparr>)
               | None \<Rightarrow>
                   Inr (g\<lparr>chess := s', selected_piece := None,
                         player_turn := other (player_turn g)\<rparr>))
            else Inr (g\<lparr>chess := s'\<rparr>))
      | None \<Rightarrow>
          (case get_piece (board (chess g)) sq of
             Some q \<Rightarrow>
               if color q = player_turn g then Inr (g\<lparr>selected_piece := Some sq\<rparr>) else Inr g
           | None \<Rightarrow> Inr g))"

text \<open>Lines 538 to 584, a click on the board part of the window.\<close>

definition board_click :: "nat \<Rightarrow> game \<Rightarrow> int \<Rightarrow> int \<Rightarrow> error + game" where
  "board_click n g mouse_x mouse_y =
     bind_err (promotion_click g mouse_x mouse_y
                 ((mouse_y - 100) div 100, (mouse_x - 300) div 100)) (\<lambda>(g1, sq).
     select_or_move n g1 sq)"

text \<open>Lines 592 to 596, the button "Step back".\<close>

definition click_step_back :: "game \<Rightarrow> game" where
  "click_step_back g =
     (if last_state (chess g) \<noteq> None
      then g\<lparr>chess := undo_move (chess g), selected_piece := None,
             player_turn := other (player_turn g)\<rparr>
      else g)"

text \<open>
  Lines 585 to 616, a click outside the board part: the buttons "New game", "Step back",
  "Draw" and "Forfeit" are the rows 4 to 7 of the window. \<open>board.__init__()\<close> builds the
  initial position and drops the snapshot; a draw leaves the board as it is.
\<close>

definition ui_click :: "game \<Rightarrow> int \<Rightarrow> game" where
  "ui_click g mouse_y =
     (let row = mouse_y div 100
      in if row = 4 then g\<lparr>chess := init_board, selected_piece := None, player_turn := White\<rparr>
         else if row = 5 then click_step_back g
         else if row = 6 then g\<lparr>selected_piece := None, player_turn := White\<rparr>
         else if row = 7
         then g\<lparr>chess := init_board, selected_piece := None, player_turn := White\<rparr>
         else g)"

definition mouse_button_down :: "nat \<Rightarrow> game \<Rightarrow> int \<Rightarrow> int \<Rightarrow> error + game" where
  "mouse_button_down n g mouse_x mouse_y =
     (if mouse_x \<ge> 300 \<and> (mouse_y \<ge> 100 \<and> mouse_y \<le> 900)
      then board_click n g mouse_x mouse_y
      else Inr (ui_click g mouse_y))"

text \<open>The events of one pass of the loop, in order; \<open>sys.exit()\<close> raises SystemExit.\<close>

fun handle_events :: "nat \<Rightarrow> game \<Rightarrow> event list \<Rightarrow> error + game" where
  "handle_events n g [] = Inr g"
| "handle_events n g (Quit # events) = Inl SystemExit"
| "handle_events n g (MouseButtonDown mouse_x mouse_y # events) =
     bind_err (mouse_button_down n g mouse_x mouse_y) (\<lambda>g'. handle_events n g' events)"
| "handle_events n g (OtherEvent # events) = handle_events n g events"

text \<open>
  Lines 621 to 646, at the end of every pass: \<open>is_game_over\<close> for the player to move;
  on checkmate and on stalemate the board is built anew and White is to move.
\<close>

definition game_over_check :: "nat \<Rightarrow> game \<Rightarrow> error + game" where
  "game_over_check n g =
     bind_err (is_game_over n (board (chess g)) (player_turn g)) (\<lambda>(game_status, b).
     if game_status = NotOver then Inr (g\<lparr>chess := (chess g)\<lparr>board := b\<rparr>\<rparr>)
     else Inr (g\<lparr>chess := init_board, selected_piece := None, player_turn := White\<rparr>))"

text \<open>One pass of \<open>while True\<close>, and a run of passes, each with its events.\<close>

definition frame :: "nat \<Rightarrow> game \<Rightarrow> event list \<Rightarrow> error + game" where
  "frame n g events = bind_err (handle_events n g events) (game_over_check n)"

fun run_frames :: "nat \<Rightarrow> game \<Rightarrow> event list list \<Rightarrow> error + game" where
  "run_frames n g [] = Inr g"
| "run_frames n g (events # frames) =
     bind_err (frame n g events) (\<lambda>g'. run_frames n g' frames)"

section \<open>Positions used below\<close>

text \<open>Python's default recursion limit.\<close>

definition recursion_limit :: nat where
  "recursion_limit = 1000"

text \<open>
  1. e4 e5 2. d4 Bb4+ from the initial position: White is in check from the bishop on
  (4, 1), and the white pawn on (4, 3) has just advanced two squares.
\<close>

definition check_line :: "(pos \<times> pos \<times> color) list" where
  "check_line =
     [((6, 4), (4, 4), White), ((1, 4), (3, 4), Black), ((6, 3), (4, 3), White),
      ((0, 5), (4, 1), Black)]"

definition flag_at :: "chessboard \<Rightarrow> pos \<Rightarrow> bool option" where
  "flag_at s p = map_option can_be_captured_en_passant (get_piece (board s) p)"

text \<open>A position given by its pieces, each put on the square it says it stands on.\<close>

definition place :: "piece list \<Rightarrow> grid" where
  "place ps = foldl (\<lambda>b p. put b (position p) (Some p)) (replicate 8 empty_rank) ps"

definition moved_piece :: "kind \<Rightarrow> color \<Rightarrow> pos \<Rightarrow> piece" where
  "moved_piece k c p = (new_piece k c p)\<lparr>has_moved := True\<rparr>"

text \<open>
  White: king on (4, 4) walled in by its own pawns. Black: a pawn on (3, 3) that has
  just advanced two squares and gives check, pawns on (2, 4) and (2, 5), king on (0, 7).
  The only way out of the check is the en-passant capture by the pawn on (3, 4).
\<close>

definition en_passant_escape :: grid where
  "en_passant_escape =
     place
       [moved_piece King White (4, 4), moved_piece Pawn White (3, 4),
        moved_piece Pawn White (3, 5), moved_piece Pawn White (4, 3),
        moved_piece Pawn White (4, 5), moved_piece Pawn White (5, 3),
        moved_piece Pawn White (5, 4), moved_piece Pawn White (5, 5),
        (moved_piece Pawn Black (3, 3))\<lparr>can_be_captured_en_passant := True\<rparr>,
        moved_piece Pawn Black (2, 4), moved_piece Pawn Black (2, 5),
        moved_piece King Black (0, 7)]"

text \<open>1. e4 e5 from the initial position: the white pawn on (4, 4) has just advanced two squares.\<close>

definition double_advance_line :: "(pos \<times> pos \<times> color) list" where
  "double_advance_line = [((6, 4), (4, 4), White), ((1, 4), (3, 4), Black)]"

definition kind_at :: "chessboard \<Rightarrow> pos \<Rightarrow> (kind \<times> color) option" where
  "kind_at s p = map_option (\<lambda>q. (kind q, color q)) (get_piece (board s) p)"

text \<open>
  Clicks on a new game, one list of events for each pass of the loop: on the square
  (6, 4), then on the square (4, 4), then on the button "Step back".
\<close>

definition first_click :: "event list list" where
  "first_click = [[MouseButtonDown 750 750]]"

definition first_move_clicks :: "event list list" where
  "first_move_clicks = [[MouseButtonDown 750 750], [MouseButtonDown 750 550]]"

definition step_back_clicks :: "event list list" where
  "step_back_clicks =
     [[MouseButtonDown 750 750], [MouseButtonDown 750 550], [MouseButtonDown 150 550]]"

section \<open>Well-formed boards\<close>

text \<open>The shape \<open>__init__\<close> gives the grid.\<close>

definition grid_ok :: "grid \<Rightarrow> bool" where
  "grid_ok b = (length b = 8 \<and> list_all (\<lambda>row. length row = 8) b)"

definition on_board :: "pos \<Rightarrow> bool" where
  "on_board p = (0 \<le> fst p \<and> fst p < 8 \<and> 0 \<le> snd p \<and> snd p < 8)"

text \<open>Reading off the answer and the state a call leaves.\<close>

definition outcome :: "error + (bool \<times> chessboard) \<Rightarrow> bool option" where
  "outcome r = (case r of Inr (ok, s) \<Rightarrow> Some ok | Inl e \<Rightarrow> None)"

definition state_after :: "error + (bool \<times> chessboard) \<Rightarrow> chessboard" where
  "state_after r = (case r of Inr (ok, s) \<Rightarrow> s | Inl e \<Rightarrow> init_board)"

definition game_after :: "error + game \<Rightarrow> game" where
  "game_after r = (case r of Inr g \<Rightarrow> g | Inl e \<Rightarrow> new_game)"

text \<open>White king and king's rook on their home squares, nothing between them.\<close>

definition white_king :: piece where
  "white_king = new_piece King White (7, 4)"

definition castle_board :: grid where
  "castle_board =
     place [white_king, new_piece Rook White (7, 7), moved_piece King Black (0, 4)]"

text \<open>Every piece on the board stands on the square its \<open>position\<close> attribute names.\<close>

definition positions_ok :: "grid \<Rightarrow> bool" where
  "positions_ok b =
     list_all (\<lambda>p. case get_piece b p of None \<Rightarrow> True | Some q \<Rightarrow> position q = p) all_squares"

text \<open>A cell holding a pawn of the given colour that can be captured en passant.\<close>

definition armed_piece :: "color \<Rightarrow> piece option \<Rightarrow> bool" where
  "armed_piece c v =
     (case v of
        None \<Rightarrow> False
      | Some q \<Rightarrow> kind q = Pawn \<and> color q = c \<and> can_be_captured_en_passant q)"

definition armed :: "color \<Rightarrow> grid \<Rightarrow> pos \<Rightarrow> bool" where
  "armed c b p = armed_piece c (get_piece b p)"

section \<open>Attack and the conditions of castling, in the words of the specification\<close>
















section \<open>The en-passant window\<close>












section \<open>Reach of rook, bishop, knight and queen, in the words of the rules\<close>











section \<open>Properties\<close>

lemma case_InrD:
  "(case m of Inr (a, b) \<Rightarrow> P a b | Inl e \<Rightarrow> False) \<Longrightarrow> \<exists>a b. m = Inr (a, b) \<and> P a b"
  by (cases m) auto

lemma check_line_pawn_capture:
  "(case play recursion_limit init_board check_line of
      Inr (ok, s) \<Rightarrow>
        ok \<and> is_king_in_check recursion_limit (board s) White = Inr (True, board s) \<and>
        move_piece recursion_limit s (4, 3) (3, 4) White = Inl UnboundLocalError
    | Inl e \<Rightarrow> False)"
  by code_simp

text \<open>
  C1 (fails on the code). After 1. e4 e5 2. d4 Bb4+ White is in check. The capture of
  the pawn on (3, 4) by the pawn on (4, 3) leaves the white king in check, and
  \<open>move_piece\<close> does not return False for it: the roll-back reads the unbound local
  \<open>direction\<close> and the call ends in UnboundLocalError.
\<close>

theorem move_piece_pawn_capture_in_check_raises:
  "\<exists>s. play recursion_limit init_board check_line = Inr (True, s) \<and>
       is_king_in_check recursion_limit (board s) White = Inr (True, board s) \<and>
       move_piece recursion_limit s (4, 3) (3, 4) White = Inl UnboundLocalError"
  using case_InrD [OF check_line_pawn_capture] by auto

lemma check_line_rejected_move:
  "(case play recursion_limit init_board check_line of
      Inr (ok, s) \<Rightarrow>
        ok \<and>
        (case move_piece recursion_limit s (6, 0) (5, 0) White of
           Inr (r, s') \<Rightarrow>
             \<not> r \<and> flag_at s (4, 3) = Some True \<and> flag_at s' (4, 3) = Some False \<and>
             board s' \<noteq> board s
         | Inl e \<Rightarrow> False)
    | Inl e \<Rightarrow> False)"
  by code_simp

text \<open>
  C2 (fails on the code). After 1. e4 e5 2. d4 Bb4+ the white pawn on (4, 3) carries the
  en-passant flag. White's attempt (6, 0) to (5, 0) passes the pawn's legality test,
  leaves the king in check and is answered False; the roll-back puts the pawn back but
  not the flags cleared before the trial, so the board after the call differs from the
  board before it.
\<close>

theorem rejected_move_changes_board:
  "\<exists>s s'. play recursion_limit init_board check_line = Inr (True, s) \<and>
       move_piece recursion_limit s (6, 0) (5, 0) White = Inr (False, s') \<and>
       flag_at s (4, 3) = Some True \<and> flag_at s' (4, 3) = Some False \<and>
       board s' \<noteq> board s"
proof -
  from case_InrD [OF check_line_rejected_move] obtain ok s
    where s: "play recursion_limit init_board check_line = Inr (ok, s)"
      and rest: "ok \<and>
        (case move_piece recursion_limit s (6, 0) (5, 0) White of
           Inr (r, s') \<Rightarrow>
             \<not> r \<and> flag_at s (4, 3) = Some True \<and> flag_at s' (4, 3) = Some False \<and>
             board s' \<noteq> board s
         | Inl e \<Rightarrow> False)"
    by blast
  from rest have ok by simp
  from rest case_InrD [where m = "move_piece recursion_limit s (6, 0) (5, 0) White"] obtain r s'
    where "move_piece recursion_limit s (6, 0) (5, 0) White = Inr (r, s')"
      and "\<not> r \<and> flag_at s (4, 3) = Some True \<and> flag_at s' (4, 3) = Some False \<and>
             board s' \<noteq> board s"
    by blast
  with s \<open>ok\<close> show ?thesis by auto
qed

lemma en_passant_escape_eval:
  "(case is_game_over recursion_limit en_passant_escape White of
      Inr (r, b) \<Rightarrow> r = Checkmate \<and> b = en_passant_escape
    | Inl e \<Rightarrow> False) \<and>
   (case move_piece recursion_limit \<lparr>board = en_passant_escape, last_state = None\<rparr>
           (3, 4) (2, 3) White of
      Inr (ok, s') \<Rightarrow> ok \<and> kind_at s' (2, 3) = Some (Pawn, White) \<and> kind_at s' (3, 3) = None
    | Inl e \<Rightarrow> False)"
  by code_simp

text \<open>
  C3 (fails on the code). In the position \<open>en_passant_escape\<close> White is in check and
  \<open>is_game_over\<close> answers checkmate, although \<open>move_piece\<close> accepts the en-passant
  capture (3, 4) to (2, 3), which removes the checking pawn: the trial moves of
  \<open>is_game_over\<close> do not remove the pawn captured en passant.
\<close>

theorem is_game_over_checkmate_with_legal_move:
  "is_game_over recursion_limit en_passant_escape White = Inr (Checkmate, en_passant_escape) \<and>
   (\<exists>s'. move_piece recursion_limit \<lparr>board = en_passant_escape, last_state = None\<rparr>
            (3, 4) (2, 3) White = Inr (True, s') \<and>
          kind_at s' (2, 3) = Some (Pawn, White) \<and> kind_at s' (3, 3) = None)"
proof -
  from en_passant_escape_eval
  have a: "(case is_game_over recursion_limit en_passant_escape White of
              Inr (r, b) \<Rightarrow> r = Checkmate \<and> b = en_passant_escape | Inl e \<Rightarrow> False)"
    and b: "(case move_piece recursion_limit \<lparr>board = en_passant_escape, last_state = None\<rparr>
                   (3, 4) (2, 3) White of
               Inr (ok, s') \<Rightarrow>
                 ok \<and> kind_at s' (2, 3) = Some (Pawn, White) \<and> kind_at s' (3, 3) = None
             | Inl e \<Rightarrow> False)"
    by blast+
  from case_InrD [OF a] case_InrD [OF b] show ?thesis by auto
qed

subsection \<open>Grid facts\<close>
declare is_king_in_check.simps(2) [simp del]

lemma is_king_in_check_Suc:
  "is_king_in_check (Suc n) b c = is_king_in_check_with (is_valid_move_with (is_king_in_check n)) b c"
  by (simp add: is_king_in_check.simps(2))

lemma ex_bool [simp]: "\<exists>r::bool. r" "\<exists>r::bool. \<not> r"
  by blast+

lemma bind_err_simps [simp]:
  "bind_err (Inl e) f = Inl e" "bind_err (Inr x) f = f x"
  by (simp_all add: bind_err_def)

lemma grid_ok_nth: "grid_ok b \<Longrightarrow> i < 8 \<Longrightarrow> length (b ! i) = 8"
  by (simp add: grid_ok_def list_all_length)

lemma grid_ok_length: "grid_ok b \<Longrightarrow> length b = 8"
  by (simp add: grid_ok_def)

lemma grid_ok_put: "grid_ok b \<Longrightarrow> grid_ok (put b p v)"
proof (cases p)
  case (Pair x y)
  assume ok: "grid_ok b"
  show ?thesis
  proof (cases "nat x < 8")
    case True
    with ok Pair show ?thesis
      by (auto simp: grid_ok_def put_def list_all_length nth_list_update)
  next
    case False
    with ok have "b[nat x := (b ! nat x)[nat y := v]] = b"
      by (intro list_update_beyond) (simp add: grid_ok_def)
    with ok Pair show ?thesis
      by (simp add: put_def)
  qed
qed

lemma get_piece_put:
  "grid_ok b \<Longrightarrow> on_board p \<Longrightarrow> get_piece (put b p v) q = (if q = p then v else get_piece b q)"
  by (cases p; cases q)
     (auto simp: get_piece_def put_def on_board_def grid_ok_nth grid_ok_length nth_list_update)

lemma get_piece_on_board: "get_piece b p = Some q \<Longrightarrow> on_board p"
  by (cases p) (auto simp: get_piece_def on_board_def split: if_splits)

lemma grid_eqI:
  assumes "grid_ok b" "grid_ok b'" "\<And>p. on_board p \<Longrightarrow> get_piece b p = get_piece b' p"
  shows "b = b'"
proof (rule nth_equalityI)
  show "length b = length b'" using assms by (simp add: grid_ok_length)
next
  fix i assume "i < length b"
  then have i: "i < 8" using assms by (simp add: grid_ok_length)
  show "b ! i = b' ! i"
  proof (rule nth_equalityI)
    show "length (b ! i) = length (b' ! i)" using assms i by (simp add: grid_ok_nth)
  next
    fix j assume "j < length (b ! i)"
    then have j: "j < 8" using assms i by (simp add: grid_ok_nth)
    have "on_board (int i, int j)" using i j by (simp add: on_board_def)
    from assms(3) [OF this] show "b ! i ! j = b' ! i ! j"
      using i j by (simp add: get_piece_def)
  qed
qed

lemma py_index_in_range: "0 \<le> i \<Longrightarrow> i < int n \<Longrightarrow> py_index n i = Some (nat i)"
  by (simp add: py_index_def)

lemma py_index_on_board:
  assumes "grid_ok b" "on_board (x, y)"
  shows "py_index (length b) x = Some (nat x)" "py_index (length (b ! nat x)) y = Some (nat y)"
proof -
  from assms have x: "0 \<le> x" "x < 8" and y: "0 \<le> y" "y < 8" by (simp_all add: on_board_def)
  from x have "nat x < 8" by simp
  with assms(1) have "length (b ! nat x) = 8" by (rule grid_ok_nth)
  with y show "py_index (length (b ! nat x)) y = Some (nat y)"
    by (simp add: py_index_in_range)
  from x assms(1) show "py_index (length b) x = Some (nat x)"
    by (simp add: py_index_in_range grid_ok_length)
qed

lemma grid_set_on_board:
  "grid_ok b \<Longrightarrow> on_board (x, y) \<Longrightarrow> grid_set b x y v = Inr (put b (x, y) v)"
  by (simp add: grid_set_def py_index_on_board put_def)

lemma grid_get_on_board:
  "grid_ok b \<Longrightarrow> on_board (x, y) \<Longrightarrow> grid_get b x y = Inr (get_piece b (x, y))"
  by (simp add: grid_get_def py_index_on_board) (simp add: get_piece_def on_board_def)

lemma path_clear_iff: "path_clear b ps = (\<forall>p\<in>set ps. get_piece b p = None)"
  by (induction ps) (auto split: option.splits)

lemma set_py_range_up: "set (py_range a b 1) = {a..<b}"
  by (auto simp: py_range_def)

lemma set_py_range_down: "set (py_range a b (- 1)) = {b<..a}"
  by (auto simp: py_range_def)

lemma all_squares_iff: "p \<in> set all_squares \<longleftrightarrow> on_board p"
  by (cases p) (force simp: all_squares_def on_board_def)

subsection \<open>is_king_in_check leaves the board alone\<close>
lemma castle_path_blocked:
  assumes k: "get_piece b (sx, ky) = Some k" "kind k = King"
    and r: "get_piece b (sx, if ky > sy then 7 else 0) = Some rook" "kind rook = Rook"
    and d: "\<bar>ky - sy\<bar> = 2"
  shows "\<not> path_clear b (map (\<lambda>y. (sx, y))
            (py_range (sy + (if ky > sy then 1 else - 1)) (if ky > sy then 7 else 0)
               (if ky > sy then 1 else - 1)))"
proof -
  from k(1) have ob: "0 \<le> ky \<and> ky < 8" using get_piece_on_board [OF k(1)]
    by (simp add: on_board_def)
  show ?thesis
  proof (cases "ky > sy")
    case True
    with k r have "ky \<noteq> 7" by auto
    with True d ob have "ky \<in> {sy + 1..<7}" by auto
    with True k show ?thesis
      by (auto simp: path_clear_iff set_py_range_up)
  next
    case False
    with k r have "ky \<noteq> 0" by auto
    with False d ob have "ky \<in> {0<..sy - 1}" by auto
    with False k show ?thesis
      by (auto simp: path_clear_iff set_py_range_down)
  qed
qed

lemma king_valid_at_king:
  assumes k: "get_piece b kp = Some k" "kind k = King"
  shows "king_valid chk q kp b =
           Inr (\<bar>fst kp - fst (position q)\<bar> \<le> 1 \<and> \<bar>snd kp - snd (position q)\<bar> \<le> 1 \<and>
                color k \<noteq> color q, b)"
proof -
  obtain sx sy where q: "position q = (sx, sy)" by (cases "position q")
  obtain kx ky where kp: "kp = (kx, ky)" by (cases kp)
  show ?thesis
  proof (cases "\<bar>kx - sx\<bar> \<le> 1 \<and> \<bar>ky - sy\<bar> \<le> 1")
    case True
    with q kp k show ?thesis by (simp add: king_valid_def)
  next
    case far: False
    show ?thesis
    proof (cases "\<not> has_moved q \<and> sx = kx \<and> \<bar>ky - sy\<bar> = 2")
      case False
      with far q kp show ?thesis by (auto simp: king_valid_def)
    next
      case True
      show ?thesis
      proof (cases "get_piece b (sx, if ky > sy then 7 else 0)")
        case None
        with far True q kp show ?thesis by (auto simp: king_valid_def Let_def)
      next
        case (Some rook)
        show ?thesis
        proof (cases "kind rook = Rook \<and> \<not> has_moved rook")
          case False
          with far True q kp Some show ?thesis by (auto simp: king_valid_def Let_def)
        next
          case rk: True
          from k kp True have "get_piece b (sx, ky) = Some k" by simp
          from castle_path_blocked [OF this k(2) Some] rk True
          have "\<not> path_clear b (map (\<lambda>y. (sx, y))
            (py_range (sy + (if ky > sy then 1 else - 1)) (if ky > sy then 7 else 0)
               (if ky > sy then 1 else - 1)))" by simp
          with far True q kp Some rk show ?thesis
            by (auto simp: king_valid_def Let_def)
        qed
      qed
    qed
  qed
qed

lemma is_valid_move_with_at_king:
  assumes "get_piece b kp = Some k" "kind k = King"
  shows "\<exists>r. \<forall>chk. is_valid_move_with chk q kp b = Inr (r, b)"
  by (cases "kind q") (simp_all add: is_valid_move_with_def king_valid_at_king [OF assms])

lemma attack_scan_pure:
  assumes "\<And>q. \<exists>r. \<forall>chk. is_valid_move_with chk q kp b = Inr (r, b)"
  shows "\<exists>r. \<forall>chk. attack_scan (is_valid_move_with chk) b kp opp sqs = Inr (r, b)"
proof (induction sqs)
  case Nil
  show ?case by (intro exI [of _ False]) simp
next
  case (Cons p ps)
  then obtain r where r: "\<And>chk. attack_scan (is_valid_move_with chk) b kp opp ps = Inr (r, b)"
    by blast
  show ?case
  proof (cases "b ! nat (fst p) ! nat (snd p)")
    case None
    with r show ?thesis by simp
  next
    case (Some q)
    from assms [of q] obtain r' where r': "\<And>chk. is_valid_move_with chk q kp b = Inr (r', b)"
      by blast
    show ?thesis
    proof (cases "color q = opp \<and> r'")
      case True
      with Some r' have "\<forall>chk. attack_scan (is_valid_move_with chk) b kp opp (p # ps) = Inr (True, b)"
        by simp
      then show ?thesis by blast
    next
      case False
      with Some r' r have "\<forall>chk. attack_scan (is_valid_move_with chk) b kp opp (p # ps) = Inr (r, b)"
        by auto
      then show ?thesis by blast
    qed
  qed
qed

lemma find_king_Some:
  "find_king b c sqs = Some kp \<Longrightarrow>
     kp \<in> set sqs \<and> (\<exists>k. b ! nat (fst kp) ! nat (snd kp) = Some k \<and> kind k = King \<and> color k = c)"
  by (induction sqs) (auto split: option.splits if_splits)

lemma find_king_None:
  "find_king b c sqs = None \<longleftrightarrow>
     (\<forall>p\<in>set sqs. \<forall>k. b ! nat (fst p) ! nat (snd p) = Some k \<longrightarrow> \<not> (kind k = King \<and> color k = c))"
  by (induction sqs) (auto split: option.splits if_splits)

lemma cell_get_piece: "on_board p \<Longrightarrow> b ! nat (fst p) ! nat (snd p) = get_piece b p"
  by (cases p) (simp add: get_piece_def on_board_def)

lemma find_king_all_Some:
  assumes "find_king b c all_squares = Some kp"
  shows "\<exists>k. get_piece b kp = Some k \<and> kind k = King \<and> color k = c"
  using find_king_Some [OF assms] by (auto simp: all_squares_iff cell_get_piece)

lemma is_king_in_check_with_pure:
  "(find_king b c all_squares = None \<and>
      (\<forall>chk. is_king_in_check_with (is_valid_move_with chk) b c = Inl ValueError)) \<or>
   (find_king b c all_squares \<noteq> None \<and>
      (\<exists>r. \<forall>chk. is_king_in_check_with (is_valid_move_with chk) b c = Inr (r, b)))"
proof (cases "find_king b c all_squares")
  case None
  then show ?thesis by (simp add: is_king_in_check_with_def)
next
  case (Some kp)
  from find_king_all_Some [OF Some] obtain k where "get_piece b kp = Some k" "kind k = King"
    by blast
  from attack_scan_pure [OF is_valid_move_with_at_king [OF this]] Some
  show ?thesis by (simp add: is_king_in_check_with_def Let_def)
qed

lemma is_king_in_check_pure:
  assumes "find_king b c all_squares \<noteq> None"
  shows "\<exists>r. \<forall>n. is_king_in_check (Suc n) b c = Inr (r, b)"
  using is_king_in_check_with_pure [of b c] assms by (auto simp: is_king_in_check_Suc)

lemma is_king_in_check_no_king:
  assumes "find_king b c all_squares = None"
  shows "is_king_in_check (Suc n) b c = Inl ValueError"
  using is_king_in_check_with_pure [of b c] assms by (auto simp: is_king_in_check_Suc)

lemma is_king_in_check_cases:
  "is_king_in_check (Suc n) b c = Inl ValueError \<or>
   (\<exists>r. is_king_in_check (Suc n) b c = Inr (r, b))"
  using is_king_in_check_with_pure [of b c] by (auto simp: is_king_in_check_Suc)

subsection \<open>The castling probes restore the board\<close>
lemma find_king_present:
  assumes "get_piece b p = Some k" "kind k = King" "color k = c"
  shows "find_king b c all_squares \<noteq> None"
proof -
  from assms(1) have ob: "on_board p" by (rule get_piece_on_board)
  then have "p \<in> set all_squares" by (simp add: all_squares_iff)
  moreover from ob assms(1) have "b ! nat (fst p) ! nat (snd p) = Some k"
    by (simp add: cell_get_piece)
  ultimately show ?thesis using assms(2,3) by (auto simp: find_king_None)
qed

lemma probe_restore:
  assumes ok: "grid_ok b" and s: "get_piece b s = Some k"
    and y: "on_board y" "y = s \<or> get_piece b y = None"
  shows "put (put (put (put b s None) y (Some k)) y None) s (Some k) = b"
proof (rule grid_eqI)
  from s have obs: "on_board s" by (rule get_piece_on_board)
  show "grid_ok (put (put (put (put b s None) y (Some k)) y None) s (Some k))"
    using ok by (intro grid_ok_put)
  show "grid_ok b" by fact
  fix p assume "on_board p"
  show "get_piece (put (put (put (put b s None) y (Some k)) y None) s (Some k)) p = get_piece b p"
    using ok obs y s by (auto simp: get_piece_put grid_ok_put)
qed

lemma castle_probe_pure:
  assumes ok: "grid_ok b" and self: "get_piece b (position self) = Some self" "kind self = King"
    and ys: "\<forall>y\<in>set ys. y = rook_y \<or>
               (on_board (fst (position self), y) \<and>
                (y = snd (position self) \<or> get_piece b (fst (position self), y) = None))"
  shows "\<exists>r. \<forall>n. castle_probe (is_king_in_check (Suc n)) self rook_y b ys = Inr (r, b)"
  using ys
proof (induction ys)
  case Nil
  show ?case by (intro exI [of _ True]) simp
next
  case (Cons y ys)
  from Cons.prems
  have "\<forall>y\<in>set ys. y = rook_y \<or>
               (on_board (fst (position self), y) \<and>
                (y = snd (position self) \<or> get_piece b (fst (position self), y) = None))"
    by simp
  from Cons.IH [OF this]
  obtain r where r: "\<And>n. castle_probe (is_king_in_check (Suc n)) self rook_y b ys = Inr (r, b)"
    by blast
  obtain sx sy where p: "position self = (sx, sy)" by (cases "position self")
  from self p have obs: "on_board (sx, sy)" using get_piece_on_board by metis
  show ?case
  proof (cases "y = rook_y")
    case True
    with r show ?thesis by auto
  next
    case False
    with Cons.prems p have oby: "on_board (sx, y)"
      and free: "(sx, y) = (sx, sy) \<or> get_piece b (sx, y) = None" by auto
    let ?b1 = "put b (sx, sy) None"
    let ?b2 = "put ?b1 (sx, y) (Some self)"
    have ok1: "grid_ok ?b1" and ok2: "grid_ok ?b2" using ok by (simp_all add: grid_ok_put)
    have "get_piece ?b2 (sx, y) = Some self" using ok1 oby by (simp add: get_piece_put)
    from find_king_present [OF this self(2) refl]
    have "find_king ?b2 (color self) all_squares \<noteq> None" .
    from is_king_in_check_pure [OF this] obtain ic
      where ic: "\<And>n. is_king_in_check (Suc n) ?b2 (color self) = Inr (ic, ?b2)" by blast
    have restored: "put (put ?b2 (sx, y) None) (sx, sy) (Some self) = b"
      using probe_restore [OF ok _ oby free] self p by simp
    have step: "castle_probe (is_king_in_check (Suc n)) self rook_y b (y # ys) =
            (if ic then Inr (False, b) else Inr (r, b))" for n
      using False p ok ok1 ok2 obs oby ic [of n] restored r [of n]
      by (simp add: grid_set_on_board grid_ok_put)
    show ?thesis
    proof (cases ic)
      case True
      with step show ?thesis by (intro exI [of _ False]) simp
    next
      case False
      with step show ?thesis by (intro exI [of _ r]) simp
    qed
  qed
qed


lemma castle_squares_free:
  assumes self: "on_board (sx, sy)"
    and e: "0 \<le> ey" "ey < 8" "\<bar>ey - sy\<bar> = 2"
    and clear: "path_clear b (map (\<lambda>y. (sx, y))
                  (py_range (sy + (if ey > sy then 1 else - 1)) (if ey > sy then 7 else 0)
                     (if ey > sy then 1 else - 1)))"
    and y: "y \<in> set (py_range sy (sy + 3 * (if ey > sy then 1 else - 1))
                  (if ey > sy then 1 else - 1))"
  shows "y = (if ey > sy then 7 else 0) \<or>
         (on_board (sx, y) \<and> (y = sy \<or> get_piece b (sx, y) = None))"
proof (cases "ey > sy")
  case True
  with y have "y \<in> {sy..<sy + 3}" by (simp add: set_py_range_up)
  with True e self have r: "sy \<le> y" "y \<le> 7" "0 \<le> y" by (auto simp: on_board_def)
  show ?thesis
  proof (cases "y = 7 \<or> y = sy")
    case True
    with self r \<open>ey > sy\<close> show ?thesis by (auto simp: on_board_def)
  next
    case False
    with r have "y \<in> {sy + 1..<7}" by auto
    with clear \<open>ey > sy\<close> have "get_piece b (sx, y) = None"
      by (auto simp: path_clear_iff set_py_range_up)
    with self r \<open>ey > sy\<close> show ?thesis by (auto simp: on_board_def)
  qed
next
  case False
  with y have "y \<in> {sy - 3<..sy}" by (simp add: set_py_range_down)
  with False e self have r: "y \<le> sy" "0 \<le> y" "y < 8" by (auto simp: on_board_def)
  show ?thesis
  proof (cases "y = 0 \<or> y = sy")
    case True
    with self r \<open>\<not> ey > sy\<close> show ?thesis by (auto simp: on_board_def)
  next
    case nz: False
    with r have "y \<in> {0<..sy - 1}" by auto
    with clear False have "get_piece b (sx, y) = None"
      by (auto simp: path_clear_iff set_py_range_down)
    with self r False show ?thesis by (auto simp: on_board_def)
  qed
qed

lemma king_valid_pure:
  assumes ok: "grid_ok b" and self: "get_piece b (position self) = Some self" "kind self = King"
    and e: "0 \<le> snd e" "snd e < 8"
  shows "\<exists>r. \<forall>n. king_valid (is_king_in_check (Suc n)) self e b = Inr (r, b)"
proof -
  obtain sx sy where p: "position self = (sx, sy)" by (cases "position self")
  obtain ex ey where ep: "e = (ex, ey)" by (cases e)
  from self p have obs: "on_board (sx, sy)" using get_piece_on_board by metis
  let ?d = "if ey > sy then 1 else - 1 :: int"
  let ?ry = "if ey > sy then 7 else 0 :: int"
  show ?thesis
  proof (cases "\<bar>ex - sx\<bar> \<le> 1 \<and> \<bar>ey - sy\<bar> \<le> 1")
    case True
    with p ep show ?thesis
      by (cases "get_piece b e") (simp_all add: king_valid_def)
  next
    case far: False
    show ?thesis
    proof (cases "\<not> has_moved self \<and> sx = ex \<and> \<bar>ey - sy\<bar> = 2")
      case False
      with far p ep have "\<forall>n. king_valid (is_king_in_check (Suc n)) self e b = Inr (False, b)"
        by (auto simp: king_valid_def)
      then show ?thesis by blast
    next
      case castle: True
      show ?thesis
      proof (cases "\<exists>rook. get_piece b (sx, ?ry) = Some rook \<and> kind rook = Rook \<and>
                      \<not> has_moved rook \<and>
                      path_clear b (map (\<lambda>y. (sx, y)) (py_range (sy + ?d) ?ry ?d))")
        case False
        with far castle p ep
        have "\<forall>n. king_valid (is_king_in_check (Suc n)) self e b = Inr (False, b)"
          by (auto simp: king_valid_def Let_def split: option.splits)
        then show ?thesis by blast
      next
        case True
        then obtain rook where rook: "get_piece b (sx, ?ry) = Some rook" "kind rook = Rook"
          "\<not> has_moved rook"
          and clear: "path_clear b (map (\<lambda>y. (sx, y)) (py_range (sy + ?d) ?ry ?d))" by blast
        have "\<forall>y\<in>set (py_range sy (sy + 3 * ?d) ?d). y = ?ry \<or>
               (on_board (fst (position self), y) \<and>
                (y = snd (position self) \<or> get_piece b (fst (position self), y) = None))"
          using castle_squares_free [OF obs _ _ _ clear] e ep castle p by auto
        from castle_probe_pure [OF ok self this] obtain r
          where "\<And>n. castle_probe (is_king_in_check (Suc n)) self ?ry b
                        (py_range sy (sy + 3 * ?d) ?d) = Inr (r, b)" by blast
        with far castle p ep rook clear
        have "\<forall>n. king_valid (is_king_in_check (Suc n)) self e b = Inr (r, b)"
          by (auto simp: king_valid_def Let_def)
        then show ?thesis by blast
      qed
    qed
  qed
qed

lemma is_valid_move_pure:
  assumes "grid_ok b" "get_piece b (position self) = Some self" "0 \<le> snd e" "snd e < 8"
  shows "\<exists>r. \<forall>n. is_valid_move (Suc n) self e b = Inr (r, b)"
proof (cases "kind self = King")
  case True
  from king_valid_pure [OF assms(1,2) True assms(3,4)] True show ?thesis
    by (simp add: is_valid_move_def is_valid_move_with_def)
next
  case False
  then show ?thesis
    by (cases "kind self") (simp_all add: is_valid_move_def is_valid_move_with_def)
qed

subsection \<open>Purity, undo and the turn\<close>

text \<open>
  C8. For a piece standing on the square its \<open>position\<close> names, on a board of the
  right shape, and a destination whose column is on the board, \<open>is_valid_move\<close>
  returns with the board exactly as it found it (the castling probes are undone), and
  a second call on the board the first one left gives the same answer and board.
\<close>

theorem is_valid_move_leaves_board:
  assumes "grid_ok b" "get_piece b (position self) = Some self" "0 \<le> snd e" "snd e < 8"
  shows "\<exists>r. is_valid_move (Suc n) self e b = Inr (r, b) \<and>
             bind_err (is_valid_move (Suc n) self e b)
               (\<lambda>first. is_valid_move (Suc n) self e (snd first)) = Inr (r, b)"
proof -
  from is_valid_move_pure [OF assms] obtain r
    where "is_valid_move (Suc n) self e b = Inr (r, b)" by blast
  then show ?thesis by simp
qed

lemma castle_board_facts:
  "grid_ok castle_board" "get_piece castle_board (position white_king) = Some white_king"
  "is_valid_move (Suc 1) white_king (7, 6) castle_board = Inr (True, castle_board)"
  by code_simp+

text \<open>
  Witness for C8: the white king asking to castle short on \<open>castle_board\<close>, where all
  three probes run.
\<close>

theorem is_valid_move_leaves_board_witness:
  "grid_ok castle_board \<and> get_piece castle_board (position white_king) = Some white_king \<and>
   (\<exists>r. is_valid_move (Suc 1) white_king (7, 6) castle_board = Inr (r, castle_board) \<and>
        bind_err (is_valid_move (Suc 1) white_king (7, 6) castle_board)
          (\<lambda>first. is_valid_move (Suc 1) white_king (7, 6) (snd first)) = Inr (r, castle_board))"
  using is_valid_move_leaves_board [of castle_board white_king "(7, 6)" 1] castle_board_facts(1,2)
  by simp

lemma bind_err_InrE:
  assumes "bind_err m f = Inr y"
  obtains x where "m = Inr x" "f x = Inr y"
  using assms by (cases m) simp_all

lemma move_piece_snapshot:
  assumes "move_piece n s start_pos end_pos c = Inr (True, s')"
  shows "last_state s' = Some (board s)"
  using assms
  by (auto simp: move_piece_def Let_def save_state_def
      split: option.splits if_splits prod.splits elim!: bind_err_InrE)

text \<open>
  C6. After any successful \<open>move_piece\<close>, \<open>undo_move\<close> puts back the board of before the
  call, piece for piece with all their attributes: the snapshot is taken before
  anything is changed.
\<close>

theorem move_then_undo_restores:
  assumes "grid_ok (board s)" "move_piece n s start_pos end_pos c = Inr (True, s')"
  shows "board (undo_move s') = board s"
proof -
  from assms(1) have "board s \<noteq> []" by (auto simp: grid_ok_def)
  with move_piece_snapshot [OF assms(2)] show ?thesis by (simp add: undo_move_def)
qed

lemma first_move_eval:
  "grid_ok (board init_board)"
  "outcome (move_piece recursion_limit init_board (6, 4) (4, 4) White) = Some True"
  by code_simp+


lemma first_move_state:
  "move_piece recursion_limit init_board (6, 4) (4, 4) White =
     Inr (True, state_after (move_piece recursion_limit init_board (6, 4) (4, 4) White))"
  by code_simp

text \<open>
  Witness for C6: the first move 1. e4 and its undo.
\<close>

theorem move_then_undo_restores_witness:
  "grid_ok (board init_board) \<and>
   move_piece recursion_limit init_board (6, 4) (4, 4) White =
     Inr (True, state_after (move_piece recursion_limit init_board (6, 4) (4, 4) White)) \<and>
   board (undo_move (state_after (move_piece recursion_limit init_board (6, 4) (4, 4) White))) =
     board init_board"
  using move_then_undo_restores [OF first_move_eval(1) first_move_state] first_move_eval(1)
    first_move_state
  by simp

text \<open>
  C9 as stated fails: after White's first move (6, 4) to (4, 4), made by two clicks, it
  is Black's turn; after the click on "Step back" the board is the initial one and the
  turn is not Black's.
\<close>

theorem step_back_flips_turn_counterexample:
  "run_frames recursion_limit new_game first_move_clicks =
     Inr (game_after (run_frames recursion_limit new_game first_move_clicks)) \<and>
   kind_at (chess (game_after (run_frames recursion_limit new_game first_move_clicks))) (4, 4) =
     Some (Pawn, White) \<and>
   kind_at (chess (game_after (run_frames recursion_limit new_game first_move_clicks))) (6, 4) =
     None \<and>
   player_turn (game_after (run_frames recursion_limit new_game first_move_clicks)) = Black \<and>
   run_frames recursion_limit new_game step_back_clicks =
     Inr (game_after (run_frames recursion_limit new_game step_back_clicks)) \<and>
   board (chess (game_after (run_frames recursion_limit new_game step_back_clicks))) =
     setup_board \<and>
   player_turn (game_after (run_frames recursion_limit new_game step_back_clicks)) \<noteq> Black"
  by code_simp

lemma other_other: "other (other c) = c"
  by (cases c) (simp_all add: other_def)

text \<open>
  C9, amended. When a step back is performed after a completed move that passed the
  turn, the board is restored to the snapshot and the turn indicator is flipped back:
  it is the mover's turn again. The move is made by a click on the board while no
  promotion is pending, it is not a pawn reaching row 0 or 7 (which keeps the turn until
  the promotion is chosen), and the \<open>is_game_over\<close> test at the end of the pass does not
  end the game (which would build the board anew and drop the snapshot). The state right
  after the click on "Step back" has the board of before the move and the mover's turn,
  and so has the state at the end of that pass if \<open>is_game_over\<close> answers False there.
\<close>

theorem step_back_flips_turn:
  assumes ok: "grid_ok (board (chess g))"
    and idle: "promoting_pawn g = None"
    and sel: "selected_piece g = Some sel"
    and click: "300 \<le> mouse_x" "100 \<le> mouse_y" "mouse_y \<le> 900"
      "sq = ((mouse_y - 100) div 100, (mouse_x - 300) div 100)"
    and target: "\<forall>q. get_piece (board (chess g)) sq = Some q \<longrightarrow> color q \<noteq> player_turn g"
    and moved: "move_piece n (chess g) sel sq (player_turn g) = Inr (True, s')"
    and plain: "\<forall>q. get_piece (board s') sq = Some q \<longrightarrow>
                  \<not> (kind q = Pawn \<and> (fst sq = 0 \<or> fst sq = 7))"
    and go_on: "is_game_over n (board s') (other (player_turn g)) = Inr (NotOver, b1)"
    and button: "ux < 300" "500 \<le> uy" "uy < 600"
  shows "\<exists>g1 g2.
           frame n g [MouseButtonDown mouse_x mouse_y] = Inr g1 \<and>
           player_turn g1 = other (player_turn g) \<and> board (chess g1) = b1 \<and>
           mouse_button_down n g1 ux uy = Inr g2 \<and>
           board (chess g2) = board (chess g) \<and> player_turn g2 = player_turn g \<and>
           (\<forall>b0. is_game_over n (board (chess g)) (player_turn g) = Inr (NotOver, b0) \<longrightarrow>
              (\<exists>g3. frame n g1 [MouseButtonDown ux uy] = Inr g3 \<and>
                    board (chess g3) = b0 \<and> player_turn g3 = player_turn g))"
proof -
  from move_piece_snapshot [OF moved] have ls: "last_state s' = Some (board (chess g))" .
  from ok have ne: "board (chess g) \<noteq> []" by (auto simp: grid_ok_def)
  define h where "h = g\<lparr>chess := s', selected_piece := None,
                         player_turn := other (player_turn g)\<rparr>"
  define g1 where "g1 = h\<lparr>chess := s'\<lparr>board := b1\<rparr>\<rparr>"
  define g2 where "g2 = click_step_back g1"
  have own: "\<not> (case get_piece (board (chess g)) sq of Some q \<Rightarrow> color q = player_turn g
                | None \<Rightarrow> False)"
    using target by (simp split: option.splits)
  have sm: "select_or_move n g sq = Inr h"
    using sel own moved plain
    by (cases "get_piece (board s') sq") (auto simp: select_or_move_def h_def)
  have mb: "mouse_button_down n g mouse_x mouse_y = Inr h"
    using click idle sm by (simp add: mouse_button_down_def board_click_def promotion_click_def)
  have f1: "frame n g [MouseButtonDown mouse_x mouse_y] = Inr g1"
    using mb go_on by (simp add: frame_def game_over_check_def h_def g1_def)
  have row: "uy div 100 = 5" using button by presburger
  have ub: "mouse_button_down n g1 ux uy = Inr g2"
    using button row by (simp add: mouse_button_down_def ui_click_def g2_def)
  have g2: "board (chess g2) = board (chess g)" "player_turn g2 = player_turn g"
    using ls ne
    by (simp_all add: g2_def g1_def h_def click_step_back_def undo_move_def other_other)
  have last: "\<exists>g3. frame n g1 [MouseButtonDown ux uy] = Inr g3 \<and>
                 board (chess g3) = b0 \<and> player_turn g3 = player_turn g"
    if "is_game_over n (board (chess g)) (player_turn g) = Inr (NotOver, b0)" for b0
    using that ub g2 by (simp add: frame_def game_over_check_def)
  have "player_turn g1 = other (player_turn g)" "board (chess g1) = b1"
    by (simp_all add: g1_def h_def)
  with f1 ub g2 last show ?thesis by blast
qed

lemma first_click_eval:
  "grid_ok (board (chess (game_after (run_frames recursion_limit new_game first_click))))"
  "promoting_pawn (game_after (run_frames recursion_limit new_game first_click)) = None"
  "selected_piece (game_after (run_frames recursion_limit new_game first_click)) = Some (6, 4)"
  "get_piece (board (chess (game_after (run_frames recursion_limit new_game first_click))))
     (4, 4) = None"
  "move_piece recursion_limit (chess (game_after (run_frames recursion_limit new_game first_click)))
     (6, 4) (4, 4) (player_turn (game_after (run_frames recursion_limit new_game first_click))) =
   Inr (True, state_after (move_piece recursion_limit init_board (6, 4) (4, 4) White))"
  "kind_at (state_after (move_piece recursion_limit init_board (6, 4) (4, 4) White)) (4, 4) =
     Some (Pawn, White)"
  "is_game_over recursion_limit
     (board (state_after (move_piece recursion_limit init_board (6, 4) (4, 4) White)))
     (other (player_turn (game_after (run_frames recursion_limit new_game first_click)))) =
   Inr (NotOver, board (state_after (move_piece recursion_limit init_board (6, 4) (4, 4) White)))"
  "is_game_over recursion_limit
     (board (chess (game_after (run_frames recursion_limit new_game first_click))))
     (player_turn (game_after (run_frames recursion_limit new_game first_click))) =
   Inr (NotOver, setup_board)"
  "player_turn (game_after (run_frames recursion_limit new_game first_click)) = White"
  "board (chess (game_after (run_frames recursion_limit new_game first_click))) = setup_board"
  by code_simp+


text \<open>
  Witness for the amended C9: on a new game, the click that selects (6, 4), the click on
  (4, 4) that moves the pawn, and the click on "Step back".
\<close>

theorem step_back_flips_turn_witness:
  "grid_ok (board (chess (game_after (run_frames recursion_limit new_game first_click)))) \<and>
   promoting_pawn (game_after (run_frames recursion_limit new_game first_click)) = None \<and>
   selected_piece (game_after (run_frames recursion_limit new_game first_click)) = Some (6, 4) \<and>
   move_piece recursion_limit (chess (game_after (run_frames recursion_limit new_game first_click)))
     (6, 4) (4, 4) White =
   Inr (True, state_after (move_piece recursion_limit init_board (6, 4) (4, 4) White)) \<and>
   (\<exists>g1 g2 g3.
      frame recursion_limit (game_after (run_frames recursion_limit new_game first_click))
        [MouseButtonDown 750 550] = Inr g1 \<and>
      player_turn g1 = Black \<and>
      board (chess g1) =
        board (state_after (move_piece recursion_limit init_board (6, 4) (4, 4) White)) \<and>
      mouse_button_down recursion_limit g1 150 550 = Inr g2 \<and>
      board (chess g2) = setup_board \<and> player_turn g2 = White \<and>
      frame recursion_limit g1 [MouseButtonDown 150 550] = Inr g3 \<and>
      board (chess g3) = setup_board \<and> player_turn g3 = White)"
proof -
  let ?g = "game_after (run_frames recursion_limit new_game first_click)"
  let ?s = "state_after (move_piece recursion_limit init_board (6, 4) (4, 4) White)"
  have t: "\<forall>q. get_piece (board (chess ?g)) ((550 - 100) div 100, (750 - 300) div 100) = Some q \<longrightarrow>
             color q \<noteq> player_turn ?g"
    using first_click_eval(4) by simp
  have m: "move_piece recursion_limit (chess ?g) (6, 4) ((550 - 100) div 100, (750 - 300) div 100)
             (player_turn ?g) = Inr (True, ?s)"
    using first_click_eval(5) by simp
  have p: "\<forall>q. get_piece (board ?s) ((550 - 100) div 100, (750 - 300) div 100) = Some q \<longrightarrow>
             \<not> (kind q = Pawn \<and>
                (fst ((550 - 100) div 100, (750 - 300) div 100) = (0::int) \<or>
                 fst ((550 - 100) div 100, (750 - 300) div 100) = (7::int)))"
    by simp
  have "300 \<le> (750::int)" "100 \<le> (550::int)" "(550::int) \<le> 900"
    "(150::int) < 300" "500 \<le> (550::int)" "(550::int) < 600"
    by simp_all
  from step_back_flips_turn [where mouse_x = 750 and mouse_y = 550 and ux = 150 and uy = 550,
      OF first_click_eval(1,2,3) this(1,2,3) refl t m p first_click_eval(7) this(4,5,6)]
  obtain g1 g2 where
    a: "frame recursion_limit ?g [MouseButtonDown 750 550] = Inr g1"
      "player_turn g1 = other (player_turn ?g)" "board (chess g1) = board ?s"
      "mouse_button_down recursion_limit g1 150 550 = Inr g2"
      "board (chess g2) = board (chess ?g)" "player_turn g2 = player_turn ?g"
    and b: "\<forall>b0. is_game_over recursion_limit (board (chess ?g)) (player_turn ?g) =
                   Inr (NotOver, b0) \<longrightarrow>
              (\<exists>g3. frame recursion_limit g1 [MouseButtonDown 150 550] = Inr g3 \<and>
                    board (chess g3) = b0 \<and> player_turn g3 = player_turn ?g)"
    by auto
  from b first_click_eval(8) obtain g3 where
    c: "frame recursion_limit g1 [MouseButtonDown 150 550] = Inr g3"
      "board (chess g3) = setup_board" "player_turn g3 = player_turn ?g"
    by blast
  from a c first_click_eval(1,2,3,5,9,10) show ?thesis
    by (auto simp: other_def)
qed

text \<open>
  C7 as stated fails: after 1. e4 e5 the white pawn on (4, 4) carries the flag; White's
  attempt (7, 0) to (5, 0), which the rook's legality test refuses, leaves the flag set.
  The flags are cleared only once the legality test has passed.
\<close>

theorem flags_kept_by_refused_attempt:
  "outcome (play recursion_limit init_board double_advance_line) = Some True \<and>
   flag_at (state_after (play recursion_limit init_board double_advance_line)) (4, 4) =
     Some True \<and>
   outcome (move_piece recursion_limit
     (state_after (play recursion_limit init_board double_advance_line)) (7, 0) (5, 0) White) =
     Some False \<and>
   flag_at (state_after (move_piece recursion_limit
     (state_after (play recursion_limit init_board double_advance_line)) (7, 0) (5, 0) White))
     (4, 4) = Some True"
  by code_simp

subsection \<open>The en-passant flags after a move\<close>

lemma move_piece_TrueE:
  assumes "move_piece n s start_pos end_pos c = Inr (True, s')"
  obtains piece b1 b2 piece2 b4 b5 rook original_piece b7 b8
  where "get_piece (board s) start_pos = Some piece" "color piece = c"
    "is_valid_move n piece end_pos (board s) = Inr (True, b1)"
    "en_passant_capture b1 piece start_pos end_pos = Inr b2"
    "update_flags c piece start_pos end_pos b2 = (piece2, b4)"
    "castle_rook b4 piece start_pos end_pos = Inr (b5, rook)"
    "simulate_move b5 piece2 start_pos end_pos = Inr (original_piece, b7)"
    "is_king_in_check n b7 c = Inr (False, b8)"
    "s' = \<lparr>board = mark_moved b8 (fst end_pos) (snd end_pos) (piece2\<lparr>position := end_pos\<rparr>),
           last_state = Some (board s)\<rparr>"
  using assms
  by (auto simp: move_piece_def Let_def save_state_def
      split: option.splits if_splits prod.splits elim!: bind_err_InrE)


lemma positions_okD: "positions_ok b \<Longrightarrow> get_piece b p = Some q \<Longrightarrow> position q = p"
  using get_piece_on_board [of b p q]
  by (auto simp: positions_ok_def list_all_iff all_squares_iff split: option.splits)

lemma is_king_in_check_board: "is_king_in_check n b c = Inr (r, b') \<Longrightarrow> b' = b"
proof (cases n)
  case 0
  assume "is_king_in_check n b c = Inr (r, b')"
  with 0 show ?thesis by simp
next
  case (Suc m)
  assume "is_king_in_check n b c = Inr (r, b')"
  with Suc is_king_in_check_cases [of m b c] show ?thesis by auto
qed

lemma py_index_less: "py_index n i = Some k \<Longrightarrow> k < n"
  by (auto simp: py_index_def split: if_splits)

lemma grid_set_cases:
  assumes ok: "grid_ok b" and set: "grid_set b x y v = Inr b'"
  shows "grid_ok b'" and "get_piece b' p = get_piece b p \<or> get_piece b' p = v"
proof -
  from set obtain i j where i: "py_index (length b) x = Some i"
    and j: "py_index (length (b ! i)) y = Some j"
    and b': "b' = b[i := (b ! i)[j := v]]"
    by (auto simp: grid_set_def split: option.splits)
  from i ok have i8: "i < 8" using py_index_less [OF i] by (simp add: grid_ok_length)
  show "grid_ok b'" using ok i8 b'
    by (auto simp: grid_ok_def list_all_length nth_list_update)
  obtain px py where p: "p = (px, py)" by (cases p)
  show "get_piece b' p = get_piece b p \<or> get_piece b' p = v"
    using ok i8 b' p py_index_less [OF j]
    by (auto simp: get_piece_def nth_list_update grid_ok_length grid_ok_nth)
qed

lemma grid_ok_clear: "grid_ok b \<Longrightarrow> grid_ok (clear_en_passant c b)"
  by (simp add: grid_ok_def clear_en_passant_def list_all_length)

lemma get_piece_clear:
  assumes "grid_ok b"
  shows "get_piece (clear_en_passant c b) p =
           map_option (\<lambda>q. if kind q = Pawn \<and> color q = c
                            then q\<lparr>can_be_captured_en_passant := False\<rparr> else q)
             (get_piece b p)"
proof (cases p)
  case (Pair x y)
  show ?thesis
  proof (cases "on_board p")
    case True
    with Pair have x: "nat x < 8" and y: "nat y < 8" by (auto simp: on_board_def)
    with assms have "nat x < length b" "nat y < length (b ! nat x)"
      by (simp_all add: grid_ok_length grid_ok_nth)
    with Pair True show ?thesis
      by (cases "b ! nat x ! nat y")
         (simp_all add: get_piece_def clear_en_passant_def on_board_def)
  next
    case False
    with Pair show ?thesis by (auto simp: get_piece_def on_board_def)
  qed
qed

lemma not_armed_clear: "grid_ok b \<Longrightarrow> \<not> armed c (clear_en_passant c b) p"
  by (cases "get_piece b p") (auto simp: armed_def armed_piece_def get_piece_clear)

lemma grid_set_not_armed:
  assumes "grid_ok b" "grid_set b x y v = Inr b'" "\<forall>p. \<not> armed c b p" "\<not> armed_piece c v"
  shows "grid_ok b' \<and> (\<forall>p. \<not> armed c b' p)"
proof (intro conjI allI)
  show "grid_ok b'" using grid_set_cases(1) [OF assms(1,2)] .
  fix p
  from grid_set_cases(2) [OF assms(1,2), of p] assms(3,4)
  show "\<not> armed c b' p" by (cases p) (auto simp: armed_def)
qed


lemma castle_probe_grid_ok:
  "grid_ok b \<Longrightarrow> castle_probe (is_king_in_check n) self ry b ys = Inr (r, b') \<Longrightarrow> grid_ok b'"
proof (induction ys arbitrary: b)
  case Nil
  then show ?case by simp
next
  case (Cons y ys)
  show ?case
  proof (cases "y = ry")
    case True
    with Cons show ?thesis by simp
  next
    case False
    with Cons.prems(2) obtain b1 b2 ic b3 b4 b5
      where s1: "grid_set b (fst (position self)) (snd (position self)) None = Inr b1"
        and s2: "grid_set b1 (fst (position self)) y (Some self) = Inr b2"
        and c: "is_king_in_check n b2 (color self) = Inr (ic, b3)"
        and s4: "grid_set b3 (fst (position self)) y None = Inr b4"
        and s5: "grid_set b4 (fst (position self)) (snd (position self)) (Some self) = Inr b5"
        and rest: "(if ic then Inr (False, b5) else castle_probe (is_king_in_check n) self ry b5 ys)
                     = Inr (r, b')"
      by (auto elim!: bind_err_InrE)
    from is_king_in_check_board [OF c] have "b3 = b2" .
    with Cons.prems(1) s1 s2 s4 s5 have "grid_ok b5"
      using grid_set_cases(1) by blast
    with rest Cons.IH show ?thesis by (auto split: if_splits)
  qed
qed

lemma is_valid_move_grid_ok:
  assumes "grid_ok b" "is_valid_move n self e b = Inr (r, b')"
  shows "grid_ok b'"
proof (cases "kind self = King")
  case False
  with assms show ?thesis
    by (cases "kind self") (auto simp: is_valid_move_def is_valid_move_with_def)
next
  case True
  with assms(2) have "king_valid (is_king_in_check n) self e b = Inr (r, b')"
    by (simp add: is_valid_move_def is_valid_move_with_def)
  with assms(1) show ?thesis
    by (auto simp: king_valid_def Let_def split: prod.splits if_splits option.splits
        dest: castle_probe_grid_ok)
qed


lemma en_passant_capture_grid_ok:
  "grid_ok b \<Longrightarrow> en_passant_capture b piece st e = Inr b2 \<Longrightarrow> grid_ok b2"
  by (auto simp: en_passant_capture_def split: if_splits dest: grid_set_cases(1))

lemma castle_rook_not_armed:
  assumes "grid_ok b" "\<forall>p. \<not> armed c b p" "castle_rook b piece st e = Inr (b5, rook)"
  shows "grid_ok b5 \<and> (\<forall>p. \<not> armed c b5 p)"
proof (cases "b5 = b")
  case True
  with assms show ?thesis by simp
next
  case False
  with assms(3) obtain r b1 x y y'
    where r: "kind r = Rook"
      and s1: "grid_set b x y None = Inr b1"
      and s2: "grid_set b1 x y' (Some (r\<lparr>position := (x, y')\<rparr>)) = Inr b5"
    by (cases st; cases e)
       (auto simp: castle_rook_def Let_def split: if_splits option.splits elim!: bind_err_InrE)
  from grid_set_not_armed [OF assms(1) s1 assms(2)]
  have "grid_ok b1 \<and> (\<forall>p. \<not> armed c b1 p)" by (simp add: armed_piece_def)
  with grid_set_not_armed [OF _ s2, of c] r show ?thesis by (simp add: armed_piece_def)
qed

lemma simulate_move_not_armed:
  assumes "grid_ok b" "\<forall>p. \<not> armed c b p" "simulate_move b piece2 st e = Inr (orig, b7)"
    "\<not> armed_piece c (Some piece2)"
  shows "grid_ok b7 \<and> (\<forall>p. \<not> armed c b7 p)"
proof -
  from assms(3) obtain b1
    where s1: "grid_set b (fst e) (snd e) (Some (piece2\<lparr>position := e\<rparr>)) = Inr b1"
      and s2: "grid_set b1 (fst st) (snd st) None = Inr b7"
    by (auto simp: simulate_move_def elim!: bind_err_InrE)
  from assms(4) have "\<not> armed_piece c (Some (piece2\<lparr>position := e\<rparr>))"
    by (simp add: armed_piece_def)
  from grid_set_not_armed [OF assms(1) s1 assms(2) this]
  have "grid_ok b1 \<and> (\<forall>p. \<not> armed c b1 p)" .
  with grid_set_not_armed [OF _ s2, of c] show ?thesis by (simp add: armed_piece_def)
qed

lemma mark_moved_not_armed:
  assumes "grid_ok b" "\<forall>p. \<not> armed c b p" "\<not> armed_piece c (Some piece2)"
  shows "\<forall>p. \<not> armed c (mark_moved b x y (piece2\<lparr>position := e\<rparr>)) p"
proof (cases "mark_moved b x y (piece2\<lparr>position := e\<rparr>) = b")
  case True
  with assms show ?thesis by simp
next
  case False
  then have s: "grid_set b x y (Some (piece2\<lparr>position := e, has_moved := True\<rparr>)) =
            Inr (mark_moved b x y (piece2\<lparr>position := e\<rparr>))"
    by (auto simp: mark_moved_def split: sum.splits option.splits if_splits)
  from assms(3) have "\<not> armed_piece c (Some (piece2\<lparr>position := e, has_moved := True\<rparr>))"
    by (simp add: armed_piece_def)
  from grid_set_not_armed [OF assms(1) s assms(2) this] show ?thesis by simp
qed

lemma update_flags_single:
  assumes "\<not> (kind piece = Pawn \<and> \<bar>fst e - fst st\<bar> = 2)" "color piece = c" "grid_ok b"
    "update_flags c piece st e b = (piece2, b4)"
  shows "grid_ok b4 \<and> (\<forall>p. \<not> armed c b4 p) \<and> \<not> armed_piece c (Some piece2)"
  using assms
  by (auto simp: update_flags_def Let_def grid_ok_clear not_armed_clear armed_piece_def
      split: if_splits)

lemma pawn_valid_double:
  assumes "pawn_valid piece e b" "position piece = st" "\<bar>fst e - fst st\<bar> = 2" "on_board st"
  shows "snd e = snd st \<and> on_board e \<and> e \<noteq> st"
  using assms
  by (cases e; cases st)
     (auto simp: pawn_valid_def Let_def on_board_def split: if_splits option.splits)


lemma armed_after_move:
  assumes ok: "grid_ok (board s)" and pos: "positions_ok (board s)"
    and mv: "move_piece n s st e c = Inr (True, s')"
    and ar: "armed c (board s') p"
  shows "p = e \<and> \<bar>fst e - fst st\<bar> = 2 \<and>
         (\<exists>piece. get_piece (board s) st = Some piece \<and> kind piece = Pawn)"
proof -
  from mv obtain piece b1 b2 piece2 b4 b5 rook original_piece b7 b8
    where piece: "get_piece (board s) st = Some piece" "color piece = c"
      and vm: "is_valid_move n piece e (board s) = Inr (True, b1)"
      and ep: "en_passant_capture b1 piece st e = Inr b2"
      and uf: "update_flags c piece st e b2 = (piece2, b4)"
      and cr: "castle_rook b4 piece st e = Inr (b5, rook)"
      and sm: "simulate_move b5 piece2 st e = Inr (original_piece, b7)"
      and kc: "is_king_in_check n b7 c = Inr (False, b8)"
      and s': "s' = \<lparr>board = mark_moved b8 (fst e) (snd e) (piece2\<lparr>position := e\<rparr>),
                     last_state = Some (board s)\<rparr>"
    by (rule move_piece_TrueE)
  from is_king_in_check_board [OF kc] have b8: "b8 = b7" .
  from is_valid_move_grid_ok [OF ok vm] have ok1: "grid_ok b1" .
  from en_passant_capture_grid_ok [OF ok1 ep] have ok2: "grid_ok b2" .
  show ?thesis
  proof (cases "kind piece = Pawn \<and> \<bar>fst e - fst st\<bar> = 2")
    case False
    from update_flags_single [OF False piece(2) ok2 uf]
    have 4: "grid_ok b4" "\<forall>p. \<not> armed c b4 p" and p2: "\<not> armed_piece c (Some piece2)"
      by simp_all
    from castle_rook_not_armed [OF 4 cr] have 5: "grid_ok b5" "\<forall>p. \<not> armed c b5 p"
      by simp_all
    from simulate_move_not_armed [OF 5 sm p2] have 7: "grid_ok b7" "\<forall>p. \<not> armed c b7 p"
      by simp_all
    from mark_moved_not_armed [OF 7 p2, of "fst e" "snd e" e]
    have "\<not> armed c (mark_moved b7 (fst e) (snd e) (piece2\<lparr>position := e\<rparr>)) p"
      by (rule spec)
    with s' b8 ar show ?thesis by simp
  next
    case True
    then have pawn: "kind piece = Pawn" and two: "\<bar>fst e - fst st\<bar> = 2" by simp_all
    from vm pawn have b1: "b1 = board s" and pv: "pawn_valid piece e (board s)"
      by (auto simp: is_valid_move_def is_valid_move_with_def)
    from positions_okD [OF pos piece(1)] have pp: "position piece = st" .
    from get_piece_on_board [OF piece(1)] have obs: "on_board st" .
    from pawn_valid_double [OF pv pp two obs]
    have col: "snd e = snd st" and obe: "on_board e" and ne: "e \<noteq> st" by simp_all
    from ep col have b2: "b2 = b1" by (simp add: en_passant_capture_def)
    let ?p2 = "piece\<lparr>can_be_captured_en_passant := True\<rparr>"
    from uf pawn two have p2: "piece2 = ?p2"
      and b4: "b4 = put (clear_en_passant c b2) st (Some ?p2)"
      by (auto simp: update_flags_def Let_def)
    from cr pawn have b5: "b5 = b4"
      by (cases st; cases e) (simp add: castle_rook_def)
    have okc: "grid_ok (clear_en_passant c b2)" using ok2 by (rule grid_ok_clear)
    with b4 b5 have ok5: "grid_ok b5" by (simp add: grid_ok_put)
    have e': "e = (fst e, snd e)" and st': "st = (fst st, snd st)" by simp_all
    from obe obs have obe': "on_board (fst e, snd e)" and obs': "on_board (fst st, snd st)"
      by simp_all
    from sm ok5 obe' obs'
    have b7: "b7 = put (put b5 e (Some (piece2\<lparr>position := e\<rparr>))) st None"
      by (simp add: simulate_move_def grid_get_on_board grid_set_on_board grid_ok_put)
    have ok7: "grid_ok b7" using ok5 b7 by (simp add: grid_ok_put)
    have at_e: "get_piece b7 e = Some (piece2\<lparr>position := e\<rparr>)"
      using b7 ok5 obe obs ne by (simp add: get_piece_put grid_ok_put)
    have fin: "board s' = put b7 e (Some (piece2\<lparr>position := e, has_moved := True\<rparr>))"
      using s' b8 ok7 obe' at_e
      by (simp add: mark_moved_def grid_get_on_board grid_set_on_board)
    have "p = e"
    proof (rule ccontr)
      assume "p \<noteq> e"
      with fin ok7 obe have "get_piece (board s') p = get_piece b7 p"
        by (simp add: get_piece_put)
      also have "\<dots> = (if p = st then None else get_piece (clear_en_passant c b2) p)"
        using b7 b5 b4 ok5 okc obe obs \<open>p \<noteq> e\<close> by (simp add: get_piece_put grid_ok_put)
      finally have "\<not> armed c (board s') p"
        using not_armed_clear [OF ok2, of c p] by (simp add: armed_def armed_piece_def)
      with ar show False by simp
    qed
    with two piece(1) pawn show ?thesis by simp
  qed
qed

text \<open>
  C7, amended. The flags are cleared once the attempted move has passed the legality
  test, not before. After every successful \<open>move_piece\<close> by a colour, on a well-formed
  board, a pawn of that colour carries the flag only if it stands on the destination
  square of that move and the move was a pawn's advance of two rows.
\<close>

theorem flags_after_move:
  assumes ok: "grid_ok (board s)" and pos: "positions_ok (board s)"
    and mv: "move_piece n s st e c = Inr (True, s')"
    and ar: "armed c (board s') p"
  shows "p = e \<and> \<bar>fst e - fst st\<bar> = 2 \<and>
         (\<exists>piece. get_piece (board s) st = Some piece \<and> kind piece = Pawn)"
  using assms by (rule armed_after_move)

lemma first_move_flags_eval:
  "positions_ok (board init_board)"
  "armed White (board (state_after (move_piece recursion_limit init_board (6, 4) (4, 4) White)))
     (4, 4)"
  by code_simp+

text \<open>Witness for the amended C7: 1. e4 arms the pawn that arrives on (4, 4).\<close>

theorem flags_after_move_witness:
  "grid_ok (board init_board) \<and> positions_ok (board init_board) \<and>
   move_piece recursion_limit init_board (6, 4) (4, 4) White =
     Inr (True, state_after (move_piece recursion_limit init_board (6, 4) (4, 4) White)) \<and>
   armed White (board (state_after (move_piece recursion_limit init_board (6, 4) (4, 4) White)))
     (4, 4) \<and>
   (\<exists>piece. get_piece (board init_board) (6, 4) = Some piece \<and> kind piece = Pawn)"
  using flags_after_move [OF first_move_eval(1) first_move_flags_eval(1) first_move_state
      first_move_flags_eval(2)]
    first_move_eval(1) first_move_flags_eval first_move_state
  by simp

subsection \<open>Captures of own pieces\<close>













subsection \<open>Castling\<close>














subsection \<open>The en-passant window\<close>
























end
